theory Spec2Isabelle
  imports Complex_Main
begin

section \<open>Numbers, the compiled function and sampling\<close>

text \<open>
  The program computes with Python and numpy floats. The embedding idealises them as
  real numbers: every arithmetic operation is exact, and a function value is always a
  number. What the floats add (rounding, overflow, nan from a domain error) is outside
  the embedding.

  \<open>self.function\<close> is \<open>sp.lambdify(self.x_sym, f_expr, 'numpy')\<close>. When the expression
  still contains \<open>x\<close>, the function maps a number to a number and an array to the array
  of the values. When the expression is a number (\<open>5\<close>, or \<open>x - x\<close>, which sympy
  evaluates to \<open>0\<close>), the generated function returns that number whatever it is given,
  also for an array. In the loops of the methods \<open>f\<close> and \<open>derivative\<close> stand for the
  compiled functions called at a number.
\<close>

datatype compiled = Constant_expr real | Expr_in_x "real \<Rightarrow> real"

fun call_scalar :: "compiled \<Rightarrow> real \<Rightarrow> real" where
  "call_scalar (Constant_expr c) x = c"
| "call_scalar (Expr_in_x f) x = f x"

datatype np_value = Np_scalar real | Np_array "real list"

fun call_array :: "compiled \<Rightarrow> real list \<Rightarrow> np_value" where
  "call_array (Constant_expr c) x = Np_scalar c"
| "call_array (Expr_in_x f) x = Np_array (map f x)"

text \<open>
  Exceptions of the Python run time that the modelled code can raise, as values.
\<close>

datatype py_error =
  UnboundLocalError | ZeroDivisionError | TypeError | IndexError | Raised string

text \<open>
  \<open>y[i]\<close> for a natural number \<open>i\<close>: a number is not subscriptable.
\<close>

fun getitem :: "np_value \<Rightarrow> nat \<Rightarrow> py_error + real" where
  "getitem (Np_scalar c) i = Inl TypeError"
| "getitem (Np_array y) i = (if i < length y then Inr (y ! i) else Inl IndexError)"

text \<open>
  \<open>np.linspace(start, stop, num)\<close> gives \<open>num\<close> points, the first at \<open>start\<close>, at the
  constant distance \<open>(stop - start) / (num - 1)\<close>; a single point is \<open>start\<close> itself.
\<close>

definition linspace :: "real \<Rightarrow> real \<Rightarrow> nat \<Rightarrow> real list" where
  "linspace start stop num =
     (if num = 1 then [start]
      else map (\<lambda>i. start + real i * ((stop - start) / real (num - 1))) [0..<num])"

section \<open>Bracketing scanner\<close>

text \<open>
  \<^verbatim>\<open>
  x = np.linspace(x_min, x_max, num_points)
  y = self.function(x)
  intervals = []
  for i in range(1, len(x)):
      if y[i-1] * y[i] <= 0:
          intervals.append((x[i-1], x[i]))
  \<close>
  The loop runs over the index list \<open>range(1, len(x))\<close>; \<open>intervals\<close> is the
  accumulator. The first pass raises when \<open>y\<close> is a number.
\<close>

fun sign_change_loop ::
  "real list \<Rightarrow> np_value \<Rightarrow> nat list \<Rightarrow> (real \<times> real) list \<Rightarrow>
   py_error + (real \<times> real) list" where
  "sign_change_loop x y [] intervals = Inr intervals"
| "sign_change_loop x y (i # is) intervals =
     (case getitem y (i - 1) of
        Inl e \<Rightarrow> Inl e
      | Inr y_prev \<Rightarrow>
         (case getitem y i of
            Inl e \<Rightarrow> Inl e
          | Inr y_i \<Rightarrow>
             sign_change_loop x y is
               (if y_prev * y_i \<le> 0 then intervals @ [(x ! (i - 1), x ! i)] else intervals)))"

definition find_sign_change_intervals ::
  "compiled \<Rightarrow> real \<Rightarrow> real \<Rightarrow> nat \<Rightarrow> py_error + (real \<times> real) list" where
  "find_sign_change_intervals function x_min x_max num_points =
     (let x = linspace x_min x_max num_points;
          y = call_array function x
      in sign_change_loop x y [1..<length x] [])"

section \<open>Results of a root search\<close>

text \<open>
  How the search of one root ends. \<open>Root_found c data\<close> and
  \<open>Maximum_iterations_reached c data\<close> are the two places where the code appends the
  root \<open>c\<close> and the entry \<open>{'root': c, 'data': data}\<close>, after the messages
  "Root found" and "Maximum iterations reached. Last approximation". The other two are a
  \<open>break\<close> that leaves the loop without appending anything: Newton-Raphson's
  "Error: Derivative is close to zero at x = ..." and the "Division by near zero at
  iteration i" of regula falsi.
\<close>

datatype 'row outcome =
    Root_found real "'row list"
  | Maximum_iterations_reached real "'row list"
  | Derivative_close_to_zero real "'row list"
  | Division_by_near_zero int "'row list"

fun rows_of :: "'row outcome \<Rightarrow> 'row list" where
  "rows_of (Root_found c iterations_data) = iterations_data"
| "rows_of (Maximum_iterations_reached c iterations_data) = iterations_data"
| "rows_of (Derivative_close_to_zero x iterations_data) = iterations_data"
| "rows_of (Division_by_near_zero i iterations_data) = iterations_data"

text \<open>
  A division of Python floats raises \<open>ZeroDivisionError\<close> when the divisor is zero.
\<close>

definition py_div :: "real \<Rightarrow> real \<Rightarrow> py_error + real" where
  "py_div a b = (if b = 0 then Inl ZeroDivisionError else Inr (a / b))"

text \<open>
  A division of numpy scalars does not raise: with a zero divisor it gives \<open>nan\<close> or an
  infinity and a warning. \<open>None\<close> stands for that result, which is not a number of the
  embedding, and so does every value computed from it.
\<close>

definition np_div :: "real \<Rightarrow> real \<Rightarrow> real option" where
  "np_div a b = (if b = 0 then None else Some (a / b))"

text \<open>\<open>range(n)\<close> for a Python integer \<open>n\<close>: empty when \<open>n \<le> 0\<close>.\<close>

definition py_range :: "int \<Rightarrow> int list" where
  "py_range n = map int [0..<nat n]"

section \<open>Bisection\<close>

text \<open>
  One row of the iteration table: the keys \<open>Iteration\<close>, \<open>xl\<close>, \<open>xr\<close>, \<open>xu\<close>,
  \<open>f(xl)\<close>, \<open>f(xu)\<close>, \<open>|a|,%\<close> (\<open>None\<close> is the text "N/A"), \<open>f(xl)*f(xu)\<close> and
  \<open>Remarks\<close>.
\<close>

record bisection_row =
  bis_Iteration :: int
  bis_xl :: real
  bis_xr :: real
  bis_xu :: real
  bis_f_xl :: real
  bis_f_xu :: real
  bis_error :: "real option"
  bis_f_xl_f_xu :: real
  bis_Remarks :: string

text \<open>
  The loop \<open>for i in range(max_iter): ... else: ...\<close> of one interval, over the list of
  the indices still to run. \<open>prev_c\<close> is \<open>None\<close> before the first pass, and \<open>error\<close> is
  then \<open>float('inf')\<close>, which the code never compares (\<open>prev_c is not None and ...\<close>):
  it is \<open>None\<close> here. The \<open>else\<close> branch of the loop reads \<open>c\<close>; every pass that does
  not \<open>break\<close> ends with \<open>prev_c = c\<close>, so there \<open>c\<close> is \<open>prev_c\<close>, and it is unbound when
  no pass has run (\<open>max_iter \<le> 0\<close>; the first interval then raises, so that no later one
  can read a \<open>c\<close> left by an earlier interval).
\<close>

fun bisection_for ::
  "(real \<Rightarrow> real) \<Rightarrow> real \<Rightarrow> int \<Rightarrow> int list \<Rightarrow> real \<Rightarrow> real \<Rightarrow> real option \<Rightarrow>
   bisection_row list \<Rightarrow> py_error + bisection_row outcome" where
  "bisection_for f tolerance max_iter [] a b prev_c iterations_data =
     (case prev_c of
        None \<Rightarrow> Inl UnboundLocalError
      | Some c \<Rightarrow> Inr (Maximum_iterations_reached c iterations_data))"
| "bisection_for f tolerance max_iter (i # is) a b prev_c iterations_data =
     (let c = (a + b) / 2;
          f_a = f a;
          f_b = f b;
          f_c = f c;
          error = (case prev_c of
                     Some p \<Rightarrow> Some (if c \<noteq> 0 then \<bar>(c - p) / c\<bar> * 100 else \<bar>c - p\<bar> * 100)
                   | None \<Rightarrow> None);
          error_small = (case error of Some e \<Rightarrow> e < tolerance | None \<Rightarrow> False);
          remarks = (if \<bar>f_c\<bar> < tolerance then ''Converged by function value''
                     else if error_small then ''Converged by error tolerance''
                     else if i = max_iter - 1 then ''Max iterations reached''
                     else '''');
          iterations_data = iterations_data @
            [\<lparr>bis_Iteration = i, bis_xl = a, bis_xr = c, bis_xu = b, bis_f_xl = f_a,
              bis_f_xu = f_b, bis_error = error, bis_f_xl_f_xu = f_a * f_b,
              bis_Remarks = remarks\<rparr>]
      in if \<bar>f_c\<bar> < tolerance \<or> error_small then Inr (Root_found c iterations_data)
         else if f_a * f_c < 0
           then bisection_for f tolerance max_iter is a c (Some c) iterations_data
           else bisection_for f tolerance max_iter is c b (Some c) iterations_data)"

text \<open>
  The loop over the intervals of the scanner, which is called with its default of 100
  points. \<open>all_iterations\<close> collects one entry \<open>(root, data)\<close> per interval; the roots
  reported are their first components. The loop of bisection has no \<open>break\<close> other than
  the one of a root found, so the last two cases do not arise.
\<close>

fun bisection_intervals ::
  "(real \<Rightarrow> real) \<Rightarrow> real \<Rightarrow> int \<Rightarrow> (real \<times> real) list \<Rightarrow>
   (real \<times> bisection_row list) list \<Rightarrow> py_error + (real \<times> bisection_row list) list" where
  "bisection_intervals f tolerance max_iter [] all_iterations = Inr all_iterations"
| "bisection_intervals f tolerance max_iter ((a, b) # intervals) all_iterations =
     (case bisection_for f tolerance max_iter (py_range max_iter) a b None [] of
        Inl e \<Rightarrow> Inl e
      | Inr (Root_found c iterations_data) \<Rightarrow>
          bisection_intervals f tolerance max_iter intervals
            (all_iterations @ [(c, iterations_data)])
      | Inr (Maximum_iterations_reached c iterations_data) \<Rightarrow>
          bisection_intervals f tolerance max_iter intervals
            (all_iterations @ [(c, iterations_data)])
      | Inr (Derivative_close_to_zero x iterations_data) \<Rightarrow>
          bisection_intervals f tolerance max_iter intervals all_iterations
      | Inr (Division_by_near_zero j iterations_data) \<Rightarrow>
          bisection_intervals f tolerance max_iter intervals all_iterations)"

definition bisection_method ::
  "compiled \<Rightarrow> real \<Rightarrow> real \<Rightarrow> real \<Rightarrow> int \<Rightarrow>
   py_error + (real \<times> bisection_row list) list" where
  "bisection_method function x_min x_max tolerance max_iter =
     (case find_sign_change_intervals function x_min x_max 100 of
        Inl e \<Rightarrow> Inl e
      | Inr intervals \<Rightarrow>
          if intervals = [] then Inr []
          else bisection_intervals (call_scalar function) tolerance max_iter intervals [])"

section \<open>Regula falsi\<close>

text \<open>
  The keys of a row: \<open>Iteration\<close>, \<open>xl\<close>, \<open>xu\<close>, \<open>xr\<close>, \<open>a\<close> (\<open>None\<close> is "N/A"),
  \<open>f(xl)\<close>, \<open>f(xu)\<close>, \<open>f(xr)\<close>, \<open>f(xl)*f(xr)\<close> and \<open>Remarks\<close>.
\<close>

record regula_falsi_row =
  rf_Iteration :: int
  rf_xl :: real
  rf_xu :: real
  rf_xr :: real
  rf_a :: "real option"
  rf_f_xl :: real
  rf_f_xu :: real
  rf_f_xr :: real
  rf_f_xl_f_xr :: real
  rf_Remarks :: string

text \<open>
  The loop of one interval. As in bisection, \<open>c\<close> in the \<open>else\<close> branch of the loop is
  \<open>prev_c\<close>: the \<open>break\<close> of the near-zero denominator skips that branch.
\<close>

fun regula_falsi_for ::
  "(real \<Rightarrow> real) \<Rightarrow> real \<Rightarrow> int \<Rightarrow> int list \<Rightarrow> real \<Rightarrow> real \<Rightarrow> real option \<Rightarrow>
   regula_falsi_row list \<Rightarrow> py_error + regula_falsi_row outcome" where
  "regula_falsi_for f tolerance max_iter [] a b prev_c iterations_data =
     (case prev_c of
        None \<Rightarrow> Inl UnboundLocalError
      | Some c \<Rightarrow> Inr (Maximum_iterations_reached c iterations_data))"
| "regula_falsi_for f tolerance max_iter (i # is) a b prev_c iterations_data =
     (let f_a = f a;
          f_b = f b
      in if \<bar>f_b - f_a\<bar> < 1 / 10 ^ 10 then Inr (Division_by_near_zero i iterations_data)
         else case py_div (f_a * (b - a)) (f_b - f_a) of
           Inl e \<Rightarrow> Inl e
         | Inr q \<Rightarrow>
            (let c = a - q;
                 f_c = f c;
                 error = (case prev_c of
                            Some p \<Rightarrow>
                              Some (if c \<noteq> 0 then \<bar>(c - p) / c\<bar> * 100 else \<bar>c - p\<bar> * 100)
                          | None \<Rightarrow> None);
                 error_small = (case error of Some e \<Rightarrow> e < tolerance | None \<Rightarrow> False);
                 remarks = (if \<bar>f_c\<bar> < tolerance then ''Converged by function value''
                            else if error_small then ''Converged by error tolerance''
                            else if i = max_iter - 1 then ''Max iterations reached''
                            else '''');
                 iterations_data = iterations_data @
                   [\<lparr>rf_Iteration = i, rf_xl = a, rf_xu = b, rf_xr = c, rf_a = error,
                     rf_f_xl = f_a, rf_f_xu = f_b, rf_f_xr = f_c, rf_f_xl_f_xr = f_a * f_c,
                     rf_Remarks = remarks\<rparr>]
             in if \<bar>f_c\<bar> < tolerance \<or> error_small then Inr (Root_found c iterations_data)
                else if f_a * f_c < 0
                  then regula_falsi_for f tolerance max_iter is a c (Some c) iterations_data
                  else regula_falsi_for f tolerance max_iter is c b (Some c) iterations_data))"

fun regula_falsi_intervals ::
  "(real \<Rightarrow> real) \<Rightarrow> real \<Rightarrow> int \<Rightarrow> (real \<times> real) list \<Rightarrow>
   (real \<times> regula_falsi_row list) list \<Rightarrow> py_error + (real \<times> regula_falsi_row list) list" where
  "regula_falsi_intervals f tolerance max_iter [] all_iterations = Inr all_iterations"
| "regula_falsi_intervals f tolerance max_iter ((a, b) # intervals) all_iterations =
     (case regula_falsi_for f tolerance max_iter (py_range max_iter) a b None [] of
        Inl e \<Rightarrow> Inl e
      | Inr (Root_found c iterations_data) \<Rightarrow>
          regula_falsi_intervals f tolerance max_iter intervals
            (all_iterations @ [(c, iterations_data)])
      | Inr (Maximum_iterations_reached c iterations_data) \<Rightarrow>
          regula_falsi_intervals f tolerance max_iter intervals
            (all_iterations @ [(c, iterations_data)])
      | Inr (Derivative_close_to_zero x iterations_data) \<Rightarrow>
          regula_falsi_intervals f tolerance max_iter intervals all_iterations
      | Inr (Division_by_near_zero j iterations_data) \<Rightarrow>
          regula_falsi_intervals f tolerance max_iter intervals all_iterations)"

definition regula_falsi_method ::
  "compiled \<Rightarrow> real \<Rightarrow> real \<Rightarrow> real \<Rightarrow> int \<Rightarrow>
   py_error + (real \<times> regula_falsi_row list) list" where
  "regula_falsi_method function x_min x_max tolerance max_iter =
     (case find_sign_change_intervals function x_min x_max 100 of
        Inl e \<Rightarrow> Inl e
      | Inr intervals \<Rightarrow>
          if intervals = [] then Inr []
          else regula_falsi_intervals (call_scalar function) tolerance max_iter intervals [])"

section \<open>Newton-Raphson\<close>

text \<open>The keys of a row: \<open>Iteration\<close>, \<open>xl\<close>, \<open>a\<close>, \<open>f(x)\<close> and \<open>f'(xu)\<close>.\<close>

record newton_row =
  nr_Iteration :: int
  nr_xl :: real
  nr_a :: real
  nr_f_x :: real
  nr_f_prime_x :: real

fun newton_raphson_for ::
  "(real \<Rightarrow> real) \<Rightarrow> (real \<Rightarrow> real) \<Rightarrow> real \<Rightarrow> int list \<Rightarrow> real \<Rightarrow> newton_row list \<Rightarrow>
   py_error + newton_row outcome" where
  "newton_raphson_for f derivative tolerance [] x iterations_data =
     Inr (Maximum_iterations_reached x iterations_data)"
| "newton_raphson_for f derivative tolerance (i # is) x iterations_data =
     (let f_x = f x;
          f_prime_x = derivative x
      in if \<bar>f_prime_x\<bar> < 1 / 10 ^ 10 then Inr (Derivative_close_to_zero x iterations_data)
         else case py_div f_x f_prime_x of
           Inl e \<Rightarrow> Inl e
         | Inr q \<Rightarrow>
            (let next_x = x - q;
                 error = (if next_x \<noteq> 0 then \<bar>(next_x - x) / next_x\<bar> * 100
                          else \<bar>next_x - x\<bar> * 100);
                 iterations_data = iterations_data @
                   [\<lparr>nr_Iteration = i, nr_xl = x, nr_a = error, nr_f_x = f_x,
                     nr_f_prime_x = f_prime_x\<rparr>]
             in if \<bar>f_x\<bar> < tolerance \<or> error < tolerance
                then Inr (Root_found next_x iterations_data)
                else newton_raphson_for f derivative tolerance is next_x iterations_data))"

definition newton_raphson_method ::
  "(real \<Rightarrow> real) \<Rightarrow> (real \<Rightarrow> real) \<Rightarrow> real \<Rightarrow> real \<Rightarrow> int \<Rightarrow> py_error + newton_row outcome" where
  "newton_raphson_method f derivative initial_guess tolerance max_iter =
     newton_raphson_for f derivative tolerance (py_range max_iter) initial_guess []"

section \<open>Graphical method\<close>

text \<open>
  \<^verbatim>\<open>
  x = np.linspace(x_min, x_max, 1000)
  y = self.function(x)
  sign_changes = []
  for i in range(1, len(x)):
      if y[i-1] * y[i] <= 0:
          root = x[i-1] - y[i-1] * (x[i] - x[i-1]) / (y[i] - y[i-1])
          sign_changes.append(root)
  \<close>
  The samples are numpy arrays, so the interpolation divides numpy scalars; a root that
  is not a number is appended like any other. As in the scanner, the first pass raises
  when \<open>y\<close> is a number.
\<close>

fun graphical_loop ::
  "real list \<Rightarrow> np_value \<Rightarrow> nat list \<Rightarrow> real option list \<Rightarrow>
   py_error + real option list" where
  "graphical_loop x y [] sign_changes = Inr sign_changes"
| "graphical_loop x y (i # is) sign_changes =
     (case getitem y (i - 1) of
        Inl e \<Rightarrow> Inl e
      | Inr y_prev \<Rightarrow>
         (case getitem y i of
            Inl e \<Rightarrow> Inl e
          | Inr y_i \<Rightarrow>
             graphical_loop x y is
               (if y_prev * y_i \<le> 0
                then sign_changes @
                  [map_option (\<lambda>q. x ! (i - 1) - q)
                     (np_div (y_prev * (x ! i - x ! (i - 1))) (y_i - y_prev))]
                else sign_changes)))"

definition graphical_method ::
  "compiled \<Rightarrow> real \<Rightarrow> real \<Rightarrow> py_error + real option list" where
  "graphical_method function x_min x_max =
     (let x = linspace x_min x_max 1000;
          y = call_array function x
      in graphical_loop x y [1..<length x] [])"

section \<open>Incremental method: refinement of one sub-interval\<close>

text \<open>
  The keys of a row: \<open>Iteration\<close>, \<open>xl\<close>, \<open>x\<close> (the width \<open>delta_x\<close>), \<open>xu\<close>, \<open>f(xl)\<close>,
  \<open>f(xu)\<close>, \<open>f(xl)*f(xu)\<close> and \<open>Remarks\<close>.
\<close>

record incremental_row =
  inc_Iteration :: int
  inc_xl :: real
  inc_x :: real
  inc_xu :: real
  inc_f_xl :: real
  inc_f_xu :: real
  inc_f_xl_f_xu :: real
  inc_Remarks :: string

text \<open>
  The loop \<open>while iter_count < max_iter\<close> that refines the sub-interval
  \<open>[x, x + step_size]\<close> in which the outer walk has found a change of sign. It returns
  the variables that the code reads after the loop, and \<open>remarks\<close> as the loop leaves it
  (\<open>None\<close> while it is unassigned). The three \<open>break\<close>s at the head of a pass come
  before the row of the pass is appended. \<open>smaller_step\<close> is assigned and never read;
  it is left out.
\<close>

function incremental_while ::
  "(real \<Rightarrow> real) \<Rightarrow> real \<Rightarrow> int \<Rightarrow> int \<Rightarrow> real \<Rightarrow> real \<Rightarrow> incremental_row list \<Rightarrow>
   string option \<Rightarrow> real \<times> real \<times> int \<times> incremental_row list \<times> string option" where
  "incremental_while f tolerance max_iter iter_count x_l x_r iter_data remarks =
     (if iter_count < max_iter then
        (let f_xl = f x_l;
             f_xu = f x_r;
             delta_x = x_r - x_l;
             product = f_xl * f_xu
         in if \<bar>f_xl\<bar> < tolerance
              then (x_l, x_r, iter_count, iter_data, Some ''Converged at xl'')
            else if \<bar>f_xu\<bar> < tolerance
              then (x_l, x_r, iter_count, iter_data, Some ''Converged at xu'')
            else if delta_x < tolerance
              then (x_l, x_r, iter_count, iter_data, Some ''Interval too small'')
            else
              (let iter_data = iter_data @
                     [\<lparr>inc_Iteration = iter_count, inc_xl = x_l, inc_x = delta_x, inc_xu = x_r,
                       inc_f_xl = f_xl, inc_f_xu = f_xu, inc_f_xl_f_xu = product,
                       inc_Remarks = ''''\<rparr>];
                   x_mid = (x_l + x_r) / 2;
                   f_mid = f x_mid;
                   x_r' = (if f_xl * f_mid < 0 then x_mid else x_r);
                   x_l' = (if f_xl * f_mid < 0 then x_l else x_mid)
               in if \<bar>f_mid\<bar> < tolerance \<or> delta_x < tolerance
                    then (x_l', x_r', iter_count + 1, iter_data, Some '''')
                  else incremental_while f tolerance max_iter (iter_count + 1) x_l' x_r'
                         iter_data (Some '''')))
      else (x_l, x_r, iter_count, iter_data, remarks))"
  by pat_completeness auto
termination
  by (relation "measure (\<lambda>(f, tolerance, max_iter, iter_count, rest). nat (max_iter - iter_count))")
     auto

declare incremental_while.simps [simp del]

text \<open>
  The refinement of one sub-interval: the loop from \<open>x_l = x\<close>, \<open>x_r = next_x\<close>, then the
  final row, whose remarks replace those of the loop, and the entry
  \<open>{'root': root, 'data': iter_data}\<close>.
\<close>

definition incremental_refine ::
  "(real \<Rightarrow> real) \<Rightarrow> real \<Rightarrow> int \<Rightarrow> real \<Rightarrow> real \<Rightarrow> real \<times> incremental_row list" where
  "incremental_refine f tolerance max_iter x next_x =
     (case incremental_while f tolerance max_iter 0 x next_x [] None of
        (x_l, x_r, iter_count, iter_data, loop_remarks) \<Rightarrow>
          (let f_xl = f x_l;
               f_xu = f x_r;
               delta_x = x_r - x_l;
               product = f_xl * f_xu;
               root = (if \<bar>f_xl\<bar> < tolerance then x_l
                       else if \<bar>f_xu\<bar> < tolerance then x_r
                       else (x_l + x_r) / 2);
               remarks = (if \<bar>f_xl\<bar> < tolerance then ''Converged at xl''
                          else if \<bar>f_xu\<bar> < tolerance then ''Converged at xu''
                          else ''Final approximation'')
           in (root, iter_data @
                 [\<lparr>inc_Iteration = iter_count, inc_xl = x_l, inc_x = delta_x, inc_xu = x_r,
                   inc_f_xl = f_xl, inc_f_xu = f_xu, inc_f_xl_f_xu = product,
                   inc_Remarks = remarks\<rparr>])))"

section \<open>Formatting a table cell\<close>

text \<open>
  The values that reach \<open>format_number\<close>: Python integers, floats, and anything else
  (the texts of the table, such as "N/A" and the remarks), which is returned as it is;
  a string stands for it.
\<close>

datatype py_value = Int_value int | Float_value real | Str_value string

text \<open>
  \<open>round(value, 4)\<close> of a float rounds to the nearest multiple of \<open>10^-4\<close>, a tie to
  the even one; of an integer it is the integer itself.
\<close>

definition round_half_even :: "real \<Rightarrow> int" where
  "round_half_even x =
     (let n = \<lfloor>x\<rfloor>;
          r = x - of_int n
      in if r < 1 / 2 then n
         else if 1 / 2 < r then n + 1
         else if even n then n else n + 1)"

definition py_round4 :: "real \<Rightarrow> real" where
  "py_round4 v = of_int (round_half_even (v * 10 ^ 4)) / 10 ^ 4"

text \<open>
  \<open>use_full_precision\<close> is the state of the precision toggle, read by
  \<open>self.use_full_precision.get()\<close>. The text that Python's format \<open>.4e\<close> produces is
  not modelled: \<open>format_4e\<close> is a parameter that stands for \<open>f"{value:.4e}"\<close>.
\<close>

definition format_number :: "(real \<Rightarrow> string) \<Rightarrow> bool \<Rightarrow> py_value \<Rightarrow> py_value" where
  "format_number format_4e use_full_precision v =
     (case v of
        Int_value n \<Rightarrow>
          if use_full_precision then v
          else if \<bar>real_of_int n\<bar> < 1 / 10 ^ 4 then Str_value (format_4e (real_of_int n))
          else Int_value n
      | Float_value x \<Rightarrow>
          if use_full_precision then v
          else if \<bar>x\<bar> < 1 / 10 ^ 4 then Str_value (format_4e x)
          else Float_value (py_round4 x)
      | Str_value s \<Rightarrow> v)"

section \<open>Compiling the function text\<close>

text \<open>
  The two attributes that \<open>parse_function\<close> installs. \<open>self.function\<close> is \<open>None\<close> in
  a new object, and \<open>self.derivative\<close> does not exist before the first successful
  compilation: \<open>None\<close> stands for both.
\<close>

record 'fn session =
  self_function :: "'fn option"
  self_derivative :: "'fn option"

text \<open>
  \<open>input_str\<close> is the text of the entry after \<open>strip()\<close>. The steps that the code
  delegates are parameters, each of which returns its result or the exception it
  raises: \<open>rewrite\<close> is the textual normalisation of the part after the prefix (lines 994
  to 1022, which only assign \<open>self.function_str\<close>, a text used for the labels of the
  graph and not part of the state here), \<open>py_eval\<close> is \<open>eval\<close> in the restricted
  environment, \<open>lambdify\<close> is \<open>sp.lambdify(self.x_sym, _, 'numpy')\<close> and \<open>diff\<close> is
  \<open>sp.diff(_, self.x_sym)\<close>. The result is the Boolean returned and the new state;
  every exception ends in the handler, which returns \<open>False\<close> and restores nothing.
\<close>

definition parse_function ::
  "(string \<Rightarrow> py_error + string) \<Rightarrow> (string \<Rightarrow> py_error + 'e) \<Rightarrow> ('e \<Rightarrow> py_error + 'fn) \<Rightarrow>
   ('e \<Rightarrow> py_error + 'e) \<Rightarrow> string \<Rightarrow> 'fn session \<Rightarrow> bool \<times> 'fn session" where
  "parse_function rewrite py_eval lambdify diff input_str self =
     (if take 6 input_str \<noteq> ''f(x) ='' then (False, self)
      else case rewrite (drop 6 input_str) of
        Inl e \<Rightarrow> (False, self)
      | Inr function_str \<Rightarrow>
         (case py_eval function_str of
            Inl e \<Rightarrow> (False, self)
          | Inr f_expr \<Rightarrow>
             (case lambdify f_expr of
                Inl e \<Rightarrow> (False, self)
              | Inr fn \<Rightarrow>
                 (let self = self\<lparr>self_function := Some fn\<rparr>
                  in case diff f_expr of
                       Inl e \<Rightarrow> (False, self)
                     | Inr d_expr \<Rightarrow>
                        (case lambdify d_expr of
                           Inl e \<Rightarrow> (False, self)
                         | Inr d_fn \<Rightarrow> (True, self\<lparr>self_derivative := Some d_fn\<rparr>))))))"

section \<open>The convergence policy and the bisection sequence of the specification\<close>

text \<open>
  The definitions of this section follow the words of the specification, for comparison
  with the loops above. The relative error of two successive approximations, in percent,
  with the absolute error when the current one is zero; the verdict of the policy, which
  has no previous approximation to compare with in the first pass; the narrowing of an
  interval at its midpoint, the interval and the midpoint of pass \<open>k\<close>, and the row
  that the specification's pass \<open>k\<close> records, with the remarks of the code. \<open>prev\<close> and
  \<open>i0\<close> are the previous midpoint and the index with which the sequence starts:
  \<open>None\<close> and 0 for a whole interval.
\<close>

definition relative_error :: "real \<Rightarrow> real \<Rightarrow> real" where
  "relative_error x_prev x_curr =
     (if x_curr \<noteq> 0 then \<bar>x_curr - x_prev\<bar> / \<bar>x_curr\<bar> * 100 else \<bar>x_curr - x_prev\<bar> * 100)"

definition policy_converged :: "(real \<Rightarrow> real) \<Rightarrow> real \<Rightarrow> real option \<Rightarrow> real \<Rightarrow> bool" where
  "policy_converged f tolerance x_prev x_curr =
     (\<bar>f x_curr\<bar> < tolerance \<or>
      (case x_prev of Some p \<Rightarrow> relative_error p x_curr < tolerance | None \<Rightarrow> False))"

definition narrow :: "(real \<Rightarrow> real) \<Rightarrow> real \<times> real \<Rightarrow> real \<times> real" where
  "narrow f ab = (case ab of (a, b) \<Rightarrow>
     if f a * f ((a + b) / 2) < 0 then (a, (a + b) / 2) else ((a + b) / 2, b))"

fun bracket :: "(real \<Rightarrow> real) \<Rightarrow> real \<Rightarrow> real \<Rightarrow> nat \<Rightarrow> real \<times> real" where
  "bracket f a b 0 = (a, b)"
| "bracket f a b (Suc k) = narrow f (bracket f a b k)"

definition midpoint :: "(real \<Rightarrow> real) \<Rightarrow> real \<Rightarrow> real \<Rightarrow> nat \<Rightarrow> real" where
  "midpoint f a b k = (case bracket f a b k of (a', b') \<Rightarrow> (a' + b') / 2)"

definition prev_at :: "(real \<Rightarrow> real) \<Rightarrow> real \<Rightarrow> real \<Rightarrow> real option \<Rightarrow> nat \<Rightarrow> real option" where
  "prev_at f a b prev k = (case k of 0 \<Rightarrow> prev | Suc j \<Rightarrow> Some (midpoint f a b j))"

definition converged_at :: "(real \<Rightarrow> real) \<Rightarrow> real \<Rightarrow> real \<Rightarrow> real \<Rightarrow> real option \<Rightarrow> nat \<Rightarrow> bool" where
  "converged_at f tolerance a b prev k =
     policy_converged f tolerance (prev_at f a b prev k) (midpoint f a b k)"

definition bisection_row_at ::
  "(real \<Rightarrow> real) \<Rightarrow> real \<Rightarrow> int \<Rightarrow> real \<Rightarrow> real \<Rightarrow> real option \<Rightarrow> int \<Rightarrow> nat \<Rightarrow> bisection_row" where
  "bisection_row_at f tolerance max_iter a b prev i0 k =
     (case bracket f a b k of (a', b') \<Rightarrow>
       \<lparr>bis_Iteration = i0 + int k, bis_xl = a', bis_xr = midpoint f a b k, bis_xu = b',
        bis_f_xl = f a', bis_f_xu = f b',
        bis_error = map_option (\<lambda>p. relative_error p (midpoint f a b k)) (prev_at f a b prev k),
        bis_f_xl_f_xu = f a' * f b',
        bis_Remarks =
          (if \<bar>f (midpoint f a b k)\<bar> < tolerance then ''Converged by function value''
           else if converged_at f tolerance a b prev k then ''Converged by error tolerance''
           else if i0 + int k = max_iter - 1 then ''Max iterations reached''
           else '''')\<rparr>)"

section \<open>Entries and sample points\<close>

text \<open>
  The entry \<open>(root, data)\<close> that the loop over the intervals appends for the outcome of
  one interval, and the \<open>i\<close>-th of the 100 points at which bisection and regula falsi
  let the scanner sample.
\<close>

definition is_entry_of :: "py_error + 'row outcome \<Rightarrow> real \<times> 'row list \<Rightarrow> bool" where
  "is_entry_of result entry =
     (result = Inr (Root_found (fst entry) (snd entry)) \<or>
      result = Inr (Maximum_iterations_reached (fst entry) (snd entry)))"

abbreviation scan_point :: "real \<Rightarrow> real \<Rightarrow> nat \<Rightarrow> real" where
  "scan_point lo hi i \<equiv> linspace lo hi 100 ! i"

section \<open>Properties of the scanner\<close>

lemma length_linspace: "length (linspace start stop num) = num"
  by (simp add: linspace_def)

lemma nth_linspace:
  "i < num \<Longrightarrow> linspace start stop num ! i = start + real i * ((stop - start) / real (num - 1))"
  by (auto simp: linspace_def)



lemma linspace_strict_mono:
  assumes "start < stop" and "i < j" and "j < num"
  shows "linspace start stop num ! i < linspace start stop num ! j"
proof -
  from assms have "1 < num" by simp
  with assms(1) have "0 < (stop - start) / real (num - 1)" by simp
  moreover from assms(2) have "real i < real j" by simp
  ultimately have "real i * ((stop - start) / real (num - 1))
      < real j * ((stop - start) / real (num - 1))"
    by (rule mult_strict_right_mono [rotated])
  with assms show ?thesis by (simp only: nth_linspace)
qed

lemma getitem_array: "i < length y \<Longrightarrow> getitem (Np_array y) i = Inr (y ! i)"
  by simp

lemma sign_change_loop_array:
  assumes "\<forall>i\<in>set is. i < length y"
  shows "sign_change_loop x (Np_array y) is acc =
     Inr (acc @ map (\<lambda>i. (x ! (i - 1), x ! i)) (filter (\<lambda>i. y ! (i - 1) * y ! i \<le> 0) is))"
  using assms
proof (induction "is" arbitrary: acc)
  case Nil
  show ?case by simp
next
  case (Cons i "is")
  then have "i < length y" and "i - 1 < length y" by auto
  with Cons show ?case by simp
qed

lemma find_sign_change_intervals_eq:
  "find_sign_change_intervals (Expr_in_x f) lo hi n =
     Inr (map (\<lambda>i. (linspace lo hi n ! (i - 1), linspace lo hi n ! i))
       (filter (\<lambda>i. f (linspace lo hi n ! (i - 1)) * f (linspace lo hi n ! i) \<le> 0) [1..<n]))"
proof -
  have "filter (\<lambda>i. map f (linspace lo hi n) ! (i - 1) * map f (linspace lo hi n) ! i \<le> 0) [1..<n]
      = filter (\<lambda>i. f (linspace lo hi n ! (i - 1)) * f (linspace lo hi n ! i) \<le> 0) [1..<n]"
    by (rule filter_cong) (auto simp: length_linspace)
  then show ?thesis
    by (simp add: find_sign_change_intervals_def Let_def sign_change_loop_array length_linspace)
qed






section \<open>Properties of bisection\<close>

lemma relative_error_code:
  "(if c \<noteq> 0 then \<bar>(c - p) / c\<bar> * 100 else \<bar>c - p\<bar> * 100) = relative_error p c"
  by (simp add: relative_error_def abs_divide)

lemma bracket_shift:
  "bracket f a b (Suc k) = bracket f (fst (narrow f (a, b))) (snd (narrow f (a, b))) k"
  by (induction k) simp_all

lemma midpoint_shift:
  "midpoint f a b (Suc k) = midpoint f (fst (narrow f (a, b))) (snd (narrow f (a, b))) k"
  by (simp only: midpoint_def bracket_shift)

lemma midpoint_0: "midpoint f a b 0 = (a + b) / 2"
  by (simp add: midpoint_def)

lemma prev_at_shift:
  "prev_at f a b prev (Suc k) =
     prev_at f (fst (narrow f (a, b))) (snd (narrow f (a, b))) (Some ((a + b) / 2)) k"
  by (cases k) (simp_all add: prev_at_def midpoint_shift midpoint_0 del: bracket.simps)

lemma converged_at_shift:
  "converged_at f tol a b prev (Suc k) =
     converged_at f tol (fst (narrow f (a, b))) (snd (narrow f (a, b))) (Some ((a + b) / 2)) k"
  by (simp only: converged_at_def prev_at_shift midpoint_shift)

lemma bisection_row_at_shift:
  "bisection_row_at f tol m a b prev i0 (Suc k) =
     bisection_row_at f tol m (fst (narrow f (a, b))) (snd (narrow f (a, b)))
       (Some ((a + b) / 2)) (i0 + 1) k"
  unfolding bisection_row_at_def converged_at_shift prev_at_shift midpoint_shift bracket_shift [of f a b k]
  by (simp add: algebra_simps)

lemma bisection_row_at_0:
  "bisection_row_at f tol m a b prev i 0 =
     \<lparr>bis_Iteration = i, bis_xl = a, bis_xr = (a + b) / 2, bis_xu = b,
      bis_f_xl = f a, bis_f_xu = f b,
      bis_error = map_option (\<lambda>p. relative_error p ((a + b) / 2)) prev,
      bis_f_xl_f_xu = f a * f b,
      bis_Remarks =
        (if \<bar>f ((a + b) / 2)\<bar> < tol then ''Converged by function value''
         else if policy_converged f tol prev ((a + b) / 2) then ''Converged by error tolerance''
         else if i = m - 1 then ''Max iterations reached''
         else '''')\<rparr>"
  by (simp add: bisection_row_at_def converged_at_def prev_at_def midpoint_def)

lemma bisection_for_step:
  "bisection_for f tol m (i # is) a b prev acc =
     (if policy_converged f tol prev ((a + b) / 2)
      then Inr (Root_found ((a + b) / 2) (acc @ [bisection_row_at f tol m a b prev i 0]))
      else bisection_for f tol m is (fst (narrow f (a, b))) (snd (narrow f (a, b)))
             (Some ((a + b) / 2)) (acc @ [bisection_row_at f tol m a b prev i 0]))"
proof (cases prev)
  case None
  then show ?thesis
    unfolding bisection_for.simps Let_def bisection_row_at_0 policy_converged_def narrow_def
    by simp
next
  case (Some p)
  then show ?thesis
    unfolding bisection_for.simps Let_def bisection_row_at_0 policy_converged_def narrow_def
      option.case relative_error_code
    by simp
qed


lemma bisection_for_converges:
  assumes "\<forall>j<K. \<not> converged_at f tol a b prev j" and "converged_at f tol a b prev K" and "K < n"
  shows "bisection_for f tol m (map int [i0..<i0 + n]) a b prev acc =
           Inr (Root_found (midpoint f a b K)
                  (acc @ map (bisection_row_at f tol m a b prev (int i0)) [0..<Suc K]))"
  using assms
proof (induction K arbitrary: a b prev i0 acc n)
  case 0
  from \<open>0 < n\<close> have u: "[i0..<i0 + n] = i0 # [Suc i0..<i0 + n]"
    by (simp add: upt_conv_Cons)
  from "0.prems"(2) have "policy_converged f tol prev ((a + b) / 2)"
    by (simp add: converged_at_def prev_at_def midpoint_0)
  then show ?case
    by (simp add: u bisection_for_step midpoint_0 del: bisection_for.simps(2))
next
  case (Suc K)
  from \<open>Suc K < n\<close> obtain n' where n: "n = Suc n'" and K: "K < n'"
    by (cases n) auto
  have u: "[i0..<i0 + n] = i0 # [Suc i0..<Suc i0 + n']"
    by (simp add: n upt_conv_Cons)
  from Suc.prems(1) have "\<not> converged_at f tol a b prev 0" by blast
  then have nc: "\<not> policy_converged f tol prev ((a + b) / 2)"
    by (simp add: converged_at_def prev_at_def midpoint_0)
  let ?a = "fst (narrow f (a, b))" and ?b = "snd (narrow f (a, b))"
  have 1: "\<forall>j<K. \<not> converged_at f tol ?a ?b (Some ((a + b) / 2)) j"
  proof (intro allI impI)
    fix j assume "j < K"
    with Suc.prems(1) have "\<not> converged_at f tol a b prev (Suc j)" by simp
    then show "\<not> converged_at f tol ?a ?b (Some ((a + b) / 2)) j"
      unfolding converged_at_shift .
  qed
  have 2: "converged_at f tol ?a ?b (Some ((a + b) / 2)) K"
    using Suc.prems(2) by (simp only: converged_at_shift)
  have rows: "map (bisection_row_at f tol m a b prev (int i0)) [0..<Suc (Suc K)] =
      bisection_row_at f tol m a b prev (int i0) 0 #
      map (bisection_row_at f tol m ?a ?b (Some ((a + b) / 2)) (int (Suc i0))) [0..<Suc K]"
    by (subst map_upt_Suc) (simp add: bisection_row_at_shift add.commute)
  show ?case
    unfolding u list.map bisection_for_step if_not_P [OF nc] Suc.IH [OF 1 2 K] rows
      midpoint_shift
    by simp
qed

lemma bisection_for_exhausts:
  assumes "\<forall>j<n. \<not> converged_at f tol a b prev j"
  shows "bisection_for f tol m (map int [i0..<i0 + n]) a b prev acc =
           (case prev_at f a b prev n of
              None \<Rightarrow> Inl UnboundLocalError
            | Some c \<Rightarrow> Inr (Maximum_iterations_reached c
                (acc @ map (bisection_row_at f tol m a b prev (int i0)) [0..<n])))"
  using assms
proof (induction n arbitrary: a b prev i0 acc)
  case 0
  show ?case by (cases prev) (simp_all add: prev_at_def)
next
  case (Suc n)
  have u: "[i0..<i0 + Suc n] = i0 # [Suc i0..<Suc i0 + n]"
    by (simp add: upt_conv_Cons)
  from Suc.prems have "\<not> converged_at f tol a b prev 0" by blast
  then have nc: "\<not> policy_converged f tol prev ((a + b) / 2)"
    by (simp add: converged_at_def prev_at_def midpoint_0)
  let ?a = "fst (narrow f (a, b))" and ?b = "snd (narrow f (a, b))"
  have 1: "\<forall>j<n. \<not> converged_at f tol ?a ?b (Some ((a + b) / 2)) j"
  proof (intro allI impI)
    fix j assume "j < n"
    with Suc.prems have "\<not> converged_at f tol a b prev (Suc j)" by simp
    then show "\<not> converged_at f tol ?a ?b (Some ((a + b) / 2)) j"
      unfolding converged_at_shift .
  qed
  have rows: "map (bisection_row_at f tol m a b prev (int i0)) [0..<Suc n] =
      bisection_row_at f tol m a b prev (int i0) 0 #
      map (bisection_row_at f tol m ?a ?b (Some ((a + b) / 2)) (int (Suc i0))) [0..<n]"
    by (subst map_upt_Suc) (simp add: bisection_row_at_shift add.commute)
  show ?case
    unfolding u list.map bisection_for_step if_not_P [OF nc] Suc.IH [OF 1] rows prev_at_shift
    by (simp cong: option.case_cong)
qed

lemma bisection_for_result:
  assumes "1 \<le> max_iter"
  shows "\<exists>K. int K < max_iter
     \<and> (\<forall>j<K. \<not> converged_at f tol a b None j)
     \<and> (converged_at f tol a b None K \<or> int K = max_iter - 1)
     \<and> bisection_for f tol max_iter (py_range max_iter) a b None [] =
         Inr ((if converged_at f tol a b None K then Root_found else Maximum_iterations_reached)
               (midpoint f a b K) (map (bisection_row_at f tol max_iter a b None 0) [0..<Suc K]))"
proof (cases "\<exists>k. converged_at f tol a b None k \<and> int k < max_iter")
  case True
  then obtain K where K: "converged_at f tol a b None K" "int K < max_iter"
    and least: "\<forall>j<K. \<not> (converged_at f tol a b None j \<and> int j < max_iter)"
    by (auto simp: exists_least_iff [of "\<lambda>k. converged_at f tol a b None k \<and> int k < max_iter"])
  from least K(2) have nc: "\<forall>j<K. \<not> converged_at f tol a b None j" by auto
  from K(2) have "K < nat max_iter" by simp
  from bisection_for_converges [OF nc K(1) this, of max_iter 0 "[]"] K nc
  show ?thesis by (auto simp: py_range_def)
next
  case False
  from assms obtain n where n: "nat max_iter = Suc n" by (cases "nat max_iter") auto
  from False have nc: "\<forall>j<Suc n. \<not> converged_at f tol a b None j"
    using n by auto
  then have nc': "\<forall>j<n. \<not> converged_at f tol a b None j" "\<not> converged_at f tol a b None n"
    by auto
  from n have "int n = max_iter - 1" "int n < max_iter" by auto
  with bisection_for_exhausts [OF nc, of max_iter 0 "[]"] nc' n
  show ?thesis by (auto simp: py_range_def prev_at_def intro!: exI [of _ n])
qed

text \<open>
  C6. For \<open>max_iter \<ge> 1\<close> the loop of one interval makes passes \<open>0, ..., K\<close> for some
  \<open>K < max_iter\<close>: pass \<open>k\<close> works on the interval \<open>bracket f a b k\<close>, which starts as
  \<open>(a, b)\<close> and is narrowed after each pass to \<open>(a, c)\<close> when \<open>f(a) * f(c) < 0\<close> and to
  \<open>(c, b)\<close> otherwise, \<open>c\<close> being the midpoint; it appends exactly the one row
  \<open>bisection_row_at ... k\<close>, which holds the interval, the midpoint and the function
  values. No pass before \<open>K\<close> converges; pass \<open>K\<close> converges or is the last one allowed,
  and in both cases the midpoint of pass \<open>K\<close> is the root reported.
\<close>

theorem bisection_for_spec:
  assumes "1 \<le> max_iter"
  shows "\<exists>K. int K < max_iter
     \<and> (\<forall>j<K. \<not> converged_at f tol a b None j)
     \<and> (converged_at f tol a b None K \<or> int K = max_iter - 1)
     \<and> bisection_for f tol max_iter (py_range max_iter) a b None [] =
         Inr ((if converged_at f tol a b None K then Root_found else Maximum_iterations_reached)
               (midpoint f a b K) (map (bisection_row_at f tol max_iter a b None 0) [0..<Suc K]))"
  using assms by (rule bisection_for_result)

lemma bisection_for_Root_found_longer:
  "bisection_for f tol m is a b prev acc = Inr (Root_found c d) \<Longrightarrow> length acc < length d"
proof (induction "is" arbitrary: a b prev acc)
  case Nil
  then show ?case by (simp split: option.splits)
next
  case (Cons i "is")
  show ?case
  proof (cases "policy_converged f tol prev ((a + b) / 2)")
    case True
    with Cons.prems show ?thesis by (auto simp: bisection_for_step simp del: bisection_for.simps(2))
  next
    case False
    with Cons.prems have "length (acc @ [bisection_row_at f tol m a b prev i 0]) < length d"
      by (intro Cons.IH) (simp add: bisection_for_step del: bisection_for.simps(2))
    then show ?thesis by simp
  qed
qed

text \<open>
  C3. In a pass of bisection with midpoint \<open>c\<close> and previous midpoint \<open>prev\<close>, the loop
  stops in this very pass with the root \<open>c\<close> exactly when \<open>|f(c)| < tol\<close>, or there is a
  previous midpoint \<open>p\<close> and the relative error is below \<open>tol\<close>; the relative error
  recorded in the row is \<open>|c - p| / |c| * 100\<close> for \<open>c \<noteq> 0\<close> and \<open>|c - p| * 100\<close> for
  \<open>c = 0\<close>. In the first pass, where no previous midpoint exists, the test of the
  function value alone decides.
\<close>

theorem bisection_convergence_check:
  "(bisection_for f tol m (i # is) a b prev acc =
      Inr (Root_found ((a + b) / 2) (acc @ [bisection_row_at f tol m a b prev i 0])))
     = (\<bar>f ((a + b) / 2)\<bar> < tol \<or> (\<exists>p. prev = Some p \<and> relative_error p ((a + b) / 2) < tol))
   \<and> bis_error (bisection_row_at f tol m a b prev i 0)
       = map_option (\<lambda>p. relative_error p ((a + b) / 2)) prev
   \<and> (bisection_for f tol m (i # is) a b None acc =
        Inr (Root_found ((a + b) / 2) (acc @ [bisection_row_at f tol m a b None i 0])))
     = (\<bar>f ((a + b) / 2)\<bar> < tol)"
proof -
  have pc: "policy_converged f tol q ((a + b) / 2) =
      (\<bar>f ((a + b) / 2)\<bar> < tol \<or> (\<exists>p. q = Some p \<and> relative_error p ((a + b) / 2) < tol))" for q
    by (cases q) (simp_all add: policy_converged_def)
  have stop: "(bisection_for f tol m (i # is) a b q acc =
      Inr (Root_found ((a + b) / 2) (acc @ [bisection_row_at f tol m a b q i 0])))
     = policy_converged f tol q ((a + b) / 2)" for q
  proof (cases "policy_converged f tol q ((a + b) / 2)")
    case True
    then show ?thesis by (simp add: bisection_for_step del: bisection_for.simps(2))
  next
    case False
    have "bisection_for f tol m is (fst (narrow f (a, b))) (snd (narrow f (a, b)))
             (Some ((a + b) / 2)) (acc @ [bisection_row_at f tol m a b q i 0])
          \<noteq> Inr (Root_found ((a + b) / 2) (acc @ [bisection_row_at f tol m a b q i 0]))"
      using bisection_for_Root_found_longer by blast
    with False show ?thesis by (simp add: bisection_for_step del: bisection_for.simps(2))
  qed
  show ?thesis
    using stop [of prev] stop [of None] pc [of prev] pc [of None]
    by (simp add: bisection_row_at_0)
qed

theorem bisection_convergence_check_witness:
  "bisection_for (\<lambda>x. x - 1) (1 / 100) 5 [0, 1] 0 2 None [] =
      Inr (Root_found 1 [bisection_row_at (\<lambda>x. x - 1) (1 / 100) 5 0 2 None 0 0])
   \<and> bis_error (bisection_row_at (\<lambda>x. x - 1) (1 / 100) 5 0 4 (Some 1) 1 0) = Some 50
   \<and> bisection_for (\<lambda>x. x - 1) 60 5 [1] 0 4 (Some 1) [] =
      Inr (Root_found 2 [bisection_row_at (\<lambda>x. x - 1) 60 5 0 4 (Some 1) 1 0])"
  using bisection_convergence_check [of "\<lambda>x. x - 1" "1 / 100" 5 0 "[1]" 0 2 None "[]"]
    bisection_convergence_check [of "\<lambda>x. x - 1" "1 / 100" 5 1 "[]" 0 4 "Some 1" "[]"]
    bisection_convergence_check [of "\<lambda>x. x - 1" 60 5 1 "[]" 0 4 "Some 1" "[]"]
  by (simp add: relative_error_def del: bisection_for.simps)

theorem bisection_for_spec_witness:
  "(1::int) \<le> 2 \<and> (\<exists>K. int K < 2
     \<and> (\<forall>j<K. \<not> converged_at (\<lambda>x. x) (1 / 10) (-1) 3 None j)
     \<and> (converged_at (\<lambda>x. x) (1 / 10) (-1) 3 None K \<or> int K = 2 - 1)
     \<and> bisection_for (\<lambda>x. x) (1 / 10) 2 (py_range 2) (-1) 3 None [] =
         Inr ((if converged_at (\<lambda>x. x) (1 / 10) (-1) 3 None K then Root_found
               else Maximum_iterations_reached)
               (midpoint (\<lambda>x. x) (-1) 3 K)
               (map (bisection_row_at (\<lambda>x. x) (1 / 10) 2 (-1) 3 None 0) [0..<Suc K])))"
proof -
  have h: "(1::int) \<le> 2" by simp
  from h bisection_for_spec [OF h, of "\<lambda>x. x" "1 / 10" "-1" 3] show ?thesis by (rule conjI)
qed

section \<open>Properties of Newton-Raphson\<close>

lemma newton_raphson_for_safe:
  "\<exists>r more. newton_raphson_for f d tol is x acc = Inr r \<and> rows_of r = acc @ more
      \<and> (\<forall>row\<in>set more. 1 / 10 ^ 10 \<le> \<bar>nr_f_prime_x row\<bar>)"
proof (induction "is" arbitrary: x acc)
  case Nil
  show ?case by simp
next
  case (Cons i "is")
  show ?case
  proof (cases "\<bar>d x\<bar> < 1 / 10 ^ 10")
    case True
    then show ?thesis by simp
  next
    case False
    then have nz: "d x \<noteq> 0" by auto
    let ?next = "x - f x / d x"
    let ?err = "if ?next \<noteq> 0 then \<bar>(?next - x) / ?next\<bar> * 100 else \<bar>?next - x\<bar> * 100"
    let ?row = "\<lparr>nr_Iteration = i, nr_xl = x, nr_a = ?err, nr_f_x = f x, nr_f_prime_x = d x\<rparr>"
    show ?thesis
    proof (cases "\<bar>f x\<bar> < tol \<or> ?err < tol")
      case True
      with False nz have "newton_raphson_for f d tol (i # is) x acc = Inr (Root_found ?next (acc @ [?row]))"
        by (simp add: py_div_def Let_def)
      with False show ?thesis by auto
    next
      case nconv: False
      with False nz have eq: "newton_raphson_for f d tol (i # is) x acc =
          newton_raphson_for f d tol is ?next (acc @ [?row])"
        by (simp add: py_div_def Let_def)
      from Cons.IH [of ?next "acc @ [?row]"] obtain r more where
        r: "newton_raphson_for f d tol is ?next (acc @ [?row]) = Inr r"
           "rows_of r = (acc @ [?row]) @ more"
           "\<forall>row\<in>set more. 1 / 10 ^ 10 \<le> \<bar>nr_f_prime_x row\<bar>"
        by blast
      with False have "rows_of r = acc @ (?row # more)"
        "\<forall>row\<in>set (?row # more). 1 / 10 ^ 10 \<le> \<bar>nr_f_prime_x row\<bar>"
        by auto
      with eq r(1) show ?thesis by metis
    qed
  qed
qed

text \<open>
  C5. For \<open>max_iter \<ge> 1\<close> Newton-Raphson never raises, and every division it has
  executed (one per row of the table, which records the divisor \<open>f'(x)\<close>) had a divisor
  of magnitude at least \<open>1e-10\<close>. A pass that finds \<open>|f'(x)| < 1e-10\<close> stops at once: it
  returns the current \<open>x\<close> and the rows collected so far, without a new row or a new
  approximation. For \<open>f(x) = x^2\<close> from the guess 0 the method stops in the first pass.
\<close>

theorem newton_raphson_division_guarded:
  assumes "1 \<le> max_iter"
  shows "(\<exists>r. newton_raphson_method f derivative initial_guess tolerance max_iter = Inr r
           \<and> (\<forall>row\<in>set (rows_of r). 1 / 10 ^ 10 \<le> \<bar>nr_f_prime_x row\<bar>))
    \<and> (\<bar>derivative x\<bar> < 1 / 10 ^ 10 \<longrightarrow>
          newton_raphson_for f derivative tolerance (i # is) x iterations_data =
            Inr (Derivative_close_to_zero x iterations_data))
    \<and> newton_raphson_method (\<lambda>x. x ^ 2) (\<lambda>x. 2 * x) 0 tolerance max_iter =
          Inr (Derivative_close_to_zero 0 [])"
proof -
  from assms obtain n where n: "nat max_iter = Suc n" by (cases "nat max_iter") auto
  then have range: "py_range max_iter = 0 # map int [1..<Suc n]"
    by (simp add: py_range_def upt_conv_Cons)
  from newton_raphson_for_safe [of f derivative tolerance "py_range max_iter" initial_guess "[]"]
  have "\<exists>r. newton_raphson_method f derivative initial_guess tolerance max_iter = Inr r
           \<and> (\<forall>row\<in>set (rows_of r). 1 / 10 ^ 10 \<le> \<bar>nr_f_prime_x row\<bar>)"
    by (auto simp: newton_raphson_method_def)
  moreover have "newton_raphson_method (\<lambda>x. x ^ 2) (\<lambda>x. 2 * x) 0 tolerance max_iter =
          Inr (Derivative_close_to_zero 0 [])"
    by (simp add: newton_raphson_method_def range)
  ultimately show ?thesis by simp
qed

theorem newton_raphson_division_guarded_witness:
  "(1::int) \<le> 3
    \<and> newton_raphson_method (\<lambda>x. x ^ 2) (\<lambda>x. 2 * x) 0 (1 / 1000) 3 = Inr (Derivative_close_to_zero 0 [])
    \<and> newton_raphson_for (\<lambda>x. x ^ 2) (\<lambda>x. 2 * x) (1 / 1000) [5, 6] 0 [] = Inr (Derivative_close_to_zero 0 [])
    \<and> (\<exists>r. newton_raphson_method (\<lambda>x. x ^ 2 - 4) (\<lambda>x. 2 * x) 1 (1 / 1000) 3 = Inr r
           \<and> (\<forall>row\<in>set (rows_of r). 1 / 10 ^ 10 \<le> \<bar>nr_f_prime_x row\<bar>))"
proof -
  have h: "(1::int) \<le> 3" by simp
  from newton_raphson_division_guarded [OF h, of "\<lambda>x. x ^ 2" "\<lambda>x. 2 * x" 0 "1 / 1000" 0 5 "[6]" "[]"]
    newton_raphson_division_guarded [OF h, of "\<lambda>x. x ^ 2 - 4" "\<lambda>x. 2 * x" 1 "1 / 1000"]
  show ?thesis by (simp del: newton_raphson_for.simps)
qed

text \<open>
  C1. The convergence test of Newton-Raphson reads \<open>|f(x_n)|\<close>, the value at the old
  approximation, where the secant method, bisection and regula falsi test the value at
  the new one. For \<open>f(x) = x - 1\<close> from the guess 0 with tolerance 0.01 and one iteration
  allowed, the new approximation is the exact root 1, and the method reports that the
  maximum of iterations was reached.
\<close>

theorem newton_raphson_tests_old_point:
  "newton_raphson_method (\<lambda>x. x - 1) (\<lambda>x. 1) 0 (1 / 100) 1 =
     Inr (Maximum_iterations_reached 1
       [\<lparr>nr_Iteration = 0, nr_xl = 0, nr_a = 100, nr_f_x = - 1, nr_f_prime_x = 1\<rparr>])
   \<and> \<bar>(\<lambda>x. x - 1) (1::real)\<bar> < 1 / 100"
  by (simp add: newton_raphson_method_def py_range_def py_div_def Let_def)

section \<open>Properties of the graphical method\<close>

lemma graphical_loop_array:
  assumes "\<forall>i\<in>set is. i < length y"
  shows "graphical_loop x (Np_array y) is acc =
     Inr (acc @
       map (\<lambda>i. map_option (\<lambda>q. x ! (i - 1) - q)
                 (np_div (y ! (i - 1) * (x ! i - x ! (i - 1))) (y ! i - y ! (i - 1))))
         (filter (\<lambda>i. y ! (i - 1) * y ! i \<le> 0) is))"
  using assms
proof (induction "is" arbitrary: acc)
  case Nil
  show ?case by simp
next
  case (Cons i "is")
  then have "i < length y" and "i - 1 < length y" by auto
  with Cons show ?case by simp
qed

text \<open>
  Where the test of a change of sign holds, the denominator of the interpolation is
  zero exactly when both samples are zero.
\<close>

lemma graphical_loop_zero_pair:
  assumes "i < length y"
  shows "graphical_loop x (Np_array y) [i] [] = Inr [None] \<longleftrightarrow> y ! (i - 1) = 0 \<and> y ! i = 0"
proof -
  have "y ! (i - 1) = 0 \<and> y ! i = 0" if "y ! (i - 1) * y ! i \<le> 0" "y ! i - y ! (i - 1) = 0"
  proof -
    from that have "y ! i * y ! i \<le> 0" by simp
    then have "y ! i = 0" by (auto simp: mult_le_0_iff)
    with that show ?thesis by simp
  qed
  with assms show ?thesis
    by (subst graphical_loop_array) (auto simp: np_div_def)
qed

lemma graphical_samples:
  assumes "i < 1000"
  shows "linspace 0 999 1000 ! i = real i"
    and "map (\<lambda>x. x * (x - 1)) (linspace 0 999 1000) ! i = real i * (real i - 1)"
  using assms by (simp_all add: nth_linspace length_linspace)

text \<open>
  C10. The interpolation of the graphical method divides by \<open>y[i] - y[i-1]\<close> without a
  guard. For \<open>f(x) = x * (x - 1)\<close> on \<open>[0, 999]\<close> the 1000 samples are the integers
  \<open>0, ..., 999\<close>; the first two values are both zero, the sign-change test
  \<open>y[0] * y[1] \<le> 0\<close> holds, the denominator is zero, and the first root appended is not
  a number. The second comes from the samples at 1 and 2 and is the root 1; no later
  pair of samples passes the test.
\<close>

theorem graphical_method_zero_denominator:
  "graphical_method (Expr_in_x (\<lambda>x. x * (x - 1))) 0 999 = Inr [None, Some 1]"
proof -
  let ?x = "linspace 0 999 1000"
  let ?y = "map (\<lambda>x::real. x * (x - 1)) ?x"
  let ?P = "\<lambda>i. ?y ! (i - 1) * ?y ! i \<le> 0"
  let ?g = "\<lambda>i. map_option (\<lambda>q. ?x ! (i - 1) - q)
                 (np_div (?y ! (i - 1) * (?x ! i - ?x ! (i - 1))) (?y ! i - ?y ! (i - 1)))"
  define rest where "rest = [Suc (Suc 1)..<1000]"
  have "[1..<1000] = 1 # [Suc 1..<1000]"
    by (rule upt_conv_Cons) simp
  also have "[Suc 1..<1000] = Suc 1 # [Suc (Suc 1)..<1000]"
    by (rule upt_conv_Cons) simp
  finally have u: "[1..<1000] = 1 # Suc 1 # rest"
    by (simp only: rest_def)
  have in_rest: "3 \<le> i \<and> i < 1000" if "i \<in> set rest" for i
    using that by (simp add: rest_def del: upt_rec_numeral)
  have none: "filter ?P rest = []"
  proof -
    have "\<not> ?P i" if "i \<in> set rest" for i
    proof -
      from in_rest [OF that] have i: "3 \<le> i" "i < 1000" "i - 1 < 1000" by auto
      then have "real (i - 1) = real i - 1" by (simp add: of_nat_diff)
      moreover from i have "3 \<le> real i" by simp
      ultimately have "0 < (real (i - 1) * (real (i - 1) - 1)) * (real i * (real i - 1))"
        by (intro mult_pos_pos) simp_all
      with i show ?thesis
        by (simp only: graphical_samples not_le)
    qed
    then show ?thesis unfolding filter_empty_conv by blast
  qed
  have P1: "?P 1" and P2: "?P (Suc 1)"
    by (simp_all add: graphical_samples)
  have f: "filter ?P [1..<1000] = [1, Suc 1]"
    unfolding u filter.simps none using P1 P2 by simp
  have range: "\<forall>i\<in>set [1..<1000]. i < length ?y"
    by (simp add: length_linspace del: upt_rec_numeral)
  have "graphical_method (Expr_in_x (\<lambda>x. x * (x - 1))) 0 999 =
      graphical_loop ?x (Np_array ?y) [1..<1000] []"
    by (simp add: graphical_method_def Let_def length_linspace del: upt_rec_numeral)
  also have "\<dots> = Inr ([] @ map ?g (filter ?P [1..<1000]))"
    by (rule graphical_loop_array [OF range])
  also have "\<dots> = Inr [?g 1, ?g (Suc 1)]"
    unfolding f by simp
  also have "\<dots> = Inr [None, Some 1]"
    by (simp add: graphical_samples np_div_def)
  finally show ?thesis .
qed

section \<open>A zero at a sample point\<close>

lemma scanner_zero_sample:
  assumes "1 \<le> i" and "i + 1 < n" and "f (linspace lo hi n ! i) = 0"
  shows "\<exists>pre post. find_sign_change_intervals (Expr_in_x f) lo hi n =
           Inr (pre @ [(linspace lo hi n ! (i - 1), linspace lo hi n ! i),
                  (linspace lo hi n ! i, linspace lo hi n ! (i + 1))] @ post)"
proof -
  let ?x = "linspace lo hi n"
  let ?P = "\<lambda>i. f (?x ! (i - 1)) * f (?x ! i) \<le> 0"
  let ?g = "\<lambda>i. (?x ! (i - 1), ?x ! i)"
  from assms have "[1..<n] = [1..<i] @ [i..<n]"
    using upt_add_eq_append [of 1 i "n - i"] by simp
  also from assms have "[i..<n] = i # Suc i # [Suc (Suc i)..<n]"
    by (simp add: upt_conv_Cons)
  finally have "[1..<n] = [1..<i] @ i # Suc i # [Suc (Suc i)..<n]" .
  moreover from assms have "?P i" "?P (Suc i)" by simp_all
  ultimately have "map ?g (filter ?P [1..<n]) =
      map ?g (filter ?P [1..<i]) @ [?g i, ?g (Suc i)] @ map ?g (filter ?P [Suc (Suc i)..<n])"
    by simp
  then show ?thesis
    unfolding find_sign_change_intervals_eq by (intro exI) simp
qed

lemma bracket_inside:
  assumes "a < b"
  shows "a \<le> fst (bracket f a b k) \<and> fst (bracket f a b k) < snd (bracket f a b k)
           \<and> snd (bracket f a b k) \<le> b"
proof (induction k)
  case 0
  from assms show ?case by simp
next
  case (Suc k)
  obtain a' b' where ab: "bracket f a b k = (a', b')" by (cases "bracket f a b k")
  with Suc have "a \<le> a'" "a' < b'" "b' \<le> b" by simp_all
  then show ?case by (simp add: ab narrow_def)
qed

lemma midpoint_inside:
  assumes "a < b"
  shows "a < midpoint f a b k \<and> midpoint f a b k < b"
proof -
  obtain a' b' where ab: "bracket f a b k = (a', b')" by (cases "bracket f a b k")
  with bracket_inside [OF assms, of f k] have "a \<le> a'" "a' < b'" "b' \<le> b" by simp_all
  then show ?thesis by (simp add: midpoint_def ab)
qed

lemma bisection_for_entry:
  assumes "1 \<le> max_iter"
  shows "\<exists>K d. is_entry_of (bisection_for f tol max_iter (py_range max_iter) a b None [])
           (midpoint f a b K, d)"
proof -
  from bisection_for_result [OF assms, of f tol a b] obtain K where
    "bisection_for f tol max_iter (py_range max_iter) a b None [] =
         Inr ((if converged_at f tol a b None K then Root_found else Maximum_iterations_reached)
               (midpoint f a b K) (map (bisection_row_at f tol max_iter a b None 0) [0..<Suc K]))"
    by blast
  then have "is_entry_of (bisection_for f tol max_iter (py_range max_iter) a b None [])
      (midpoint f a b K, map (bisection_row_at f tol max_iter a b None 0) [0..<Suc K])"
    by (simp add: is_entry_of_def)
  then show ?thesis by blast
qed

lemma bisection_intervals_Cons:
  assumes "is_entry_of (bisection_for f tol m (py_range m) a b None []) e"
  shows "bisection_intervals f tol m ((a, b) # ivs) acc = bisection_intervals f tol m ivs (acc @ [e])"
  using assms by (cases e) (auto simp: is_entry_of_def)

lemma bisection_intervals_total:
  assumes "1 \<le> m"
  shows "\<exists>es. bisection_intervals f tol m ivs acc = Inr (acc @ es)"
proof (induction ivs arbitrary: acc)
  case Nil
  show ?case by simp
next
  case (Cons iv ivs)
  obtain a b where iv: "iv = (a, b)" by (cases iv)
  from bisection_for_entry [OF assms, of f tol a b] obtain e where
    "is_entry_of (bisection_for f tol m (py_range m) a b None []) e" by blast
  then have "bisection_intervals f tol m (iv # ivs) acc = bisection_intervals f tol m ivs (acc @ [e])"
    unfolding iv by (rule bisection_intervals_Cons)
  with Cons.IH [of "acc @ [e]"] show ?case by auto
qed

lemma bisection_intervals_append:
  "bisection_intervals f tol m (ivs1 @ ivs2) acc =
     (case bisection_intervals f tol m ivs1 acc of
        Inl e \<Rightarrow> Inl e
      | Inr acc' \<Rightarrow> bisection_intervals f tol m ivs2 acc')"
proof (induction ivs1 arbitrary: acc)
  case Nil
  show ?case by simp
next
  case (Cons iv ivs1)
  obtain a b where iv: "iv = (a, b)" by (cases iv)
  show ?case
    unfolding iv append_Cons bisection_intervals.simps
    by (simp add: Cons.IH split: sum.splits outcome.splits)
qed

lemma bisection_two_entries:
  assumes "1 \<le> m"
  shows "\<exists>pre' K1 d1 K2 d2 post'.
     bisection_intervals f tol m (pre @ [(a1, b1), (a2, b2)] @ post) [] =
       Inr (pre' @ [(midpoint f a1 b1 K1, d1), (midpoint f a2 b2 K2, d2)] @ post')
     \<and> is_entry_of (bisection_for f tol m (py_range m) a1 b1 None []) (midpoint f a1 b1 K1, d1)
     \<and> is_entry_of (bisection_for f tol m (py_range m) a2 b2 None []) (midpoint f a2 b2 K2, d2)"
proof -
  from bisection_intervals_total [OF assms, of f tol pre "[]"] obtain pre' where
    pre: "bisection_intervals f tol m pre [] = Inr pre'" by auto
  from bisection_for_entry [OF assms, of f tol a1 b1] obtain K1 d1 where
    e1: "is_entry_of (bisection_for f tol m (py_range m) a1 b1 None []) (midpoint f a1 b1 K1, d1)"
    by blast
  from bisection_for_entry [OF assms, of f tol a2 b2] obtain K2 d2 where
    e2: "is_entry_of (bisection_for f tol m (py_range m) a2 b2 None []) (midpoint f a2 b2 K2, d2)"
    by blast
  let ?acc = "pre' @ [(midpoint f a1 b1 K1, d1)] @ [(midpoint f a2 b2 K2, d2)]"
  from bisection_intervals_total [OF assms, of f tol post ?acc] obtain post' where
    post: "bisection_intervals f tol m post ?acc = Inr (?acc @ post')" by auto
  have "bisection_intervals f tol m (pre @ [(a1, b1), (a2, b2)] @ post) [] =
      bisection_intervals f tol m ((a1, b1) # (a2, b2) # post) pre'"
    by (simp add: bisection_intervals_append pre)
  also have "\<dots> = bisection_intervals f tol m post ?acc"
    by (simp add: bisection_intervals_Cons [OF e1] bisection_intervals_Cons [OF e2]
          del: bisection_intervals.simps)
  finally have "bisection_intervals f tol m (pre @ [(a1, b1), (a2, b2)] @ post) [] =
       Inr (pre' @ [(midpoint f a1 b1 K1, d1), (midpoint f a2 b2 K2, d2)] @ post')"
    using post by simp
  with e1 e2 show ?thesis by blast
qed

lemma regula_falsi_for_total:
  assumes "is \<noteq> [] \<or> prev \<noteq> None"
  shows "\<exists>r. regula_falsi_for f tol m is a b prev acc = Inr r"
  using assms
proof (induction "is" arbitrary: a b prev acc)
  case Nil
  then show ?case by auto
next
  case (Cons i "is")
  show ?case
  proof (cases "\<bar>f b - f a\<bar> < 1 / 10 ^ 10")
    case True
    then show ?thesis by simp
  next
    case False
    then have nz: "f b - f a \<noteq> 0" by auto
    have "\<exists>r. regula_falsi_for f tol m is a' b' (Some c) acc' = Inr r" for a' b' c acc'
      by (rule Cons.IH) simp
    with False nz show ?thesis
      by (simp add: py_div_def Let_def)
  qed
qed

lemma regula_falsi_intervals_total:
  assumes "1 \<le> m"
  shows "\<exists>es. regula_falsi_intervals f tol m ivs acc = Inr (acc @ es)"
proof (induction ivs arbitrary: acc)
  case Nil
  show ?case by simp
next
  case (Cons iv ivs)
  obtain a b where iv: "iv = (a, b)" by (cases iv)
  from assms have "py_range m \<noteq> []" by (simp add: py_range_def)
  then obtain r where r: "regula_falsi_for f tol m (py_range m) a b None [] = Inr r"
    using regula_falsi_for_total [of "py_range m" None f tol m a b "[]"] by blast
  show ?case
  proof (cases r)
    case (Root_found c d)
    with r Cons.IH [of "acc @ [(c, d)]"] show ?thesis by (auto simp: iv)
  next
    case (Maximum_iterations_reached c d)
    with r Cons.IH [of "acc @ [(c, d)]"] show ?thesis by (auto simp: iv)
  next
    case (Derivative_close_to_zero c d)
    with r Cons.IH [of acc] show ?thesis by (auto simp: iv)
  next
    case (Division_by_near_zero j d)
    with r Cons.IH [of acc] show ?thesis by (auto simp: iv)
  qed
qed

lemma regula_falsi_intervals_append:
  "regula_falsi_intervals f tol m (ivs1 @ ivs2) acc =
     (case regula_falsi_intervals f tol m ivs1 acc of
        Inl e \<Rightarrow> Inl e
      | Inr acc' \<Rightarrow> regula_falsi_intervals f tol m ivs2 acc')"
proof (induction ivs1 arbitrary: acc)
  case Nil
  show ?case by simp
next
  case (Cons iv ivs1)
  obtain a b where iv: "iv = (a, b)" by (cases iv)
  show ?case
    unfolding iv append_Cons regula_falsi_intervals.simps
    by (simp add: Cons.IH split: sum.splits outcome.splits)
qed

lemma regula_falsi_for_right_zero:
  assumes "f b = 0" and "1 / 10 ^ 10 \<le> \<bar>f a\<bar>" and "0 < tol" and "1 \<le> m"
  shows "\<exists>d. regula_falsi_for f tol m (py_range m) a b None [] = Inr (Root_found b d)"
proof -
  from assms(4) obtain n where "nat m = Suc n" by (cases "nat m") auto
  then have range: "py_range m = 0 # map int [1..<Suc n]"
    by (simp add: py_range_def upt_conv_Cons)
  from assms(2) have nz: "f a \<noteq> 0" by auto
  then have c: "a - f a * (b - a) / (0 - f a) = b" by (simp add: field_simps)
  from assms(1,2) have g: "\<not> \<bar>f b - f a\<bar> < 1 / 10 ^ 10" by simp
  show ?thesis
    unfolding range regula_falsi_for.simps Let_def if_not_P [OF g]
    using nz assms(1,3) c by (simp add: py_div_def)
qed

lemma regula_falsi_for_left_zero:
  assumes "f a = 0" and "1 / 10 ^ 10 \<le> \<bar>f b\<bar>" and "0 < tol" and "1 \<le> m"
  shows "\<exists>d. regula_falsi_for f tol m (py_range m) a b None [] = Inr (Root_found a d)"
proof -
  from assms(4) obtain n where "nat m = Suc n" by (cases "nat m") auto
  then have range: "py_range m = 0 # map int [1..<Suc n]"
    by (simp add: py_range_def upt_conv_Cons)
  from assms(2) have nz: "f b \<noteq> 0" by auto
  from assms(1,2) have g: "\<not> \<bar>f b - f a\<bar> < 1 / 10 ^ 10" by simp
  show ?thesis
    unfolding range regula_falsi_for.simps Let_def if_not_P [OF g]
    using nz assms(1,3) by (simp add: py_div_def)
qed

lemma regula_falsi_two_entries:
  assumes "f c = 0" and "1 / 10 ^ 10 \<le> \<bar>f a\<bar>" and "1 / 10 ^ 10 \<le> \<bar>f b\<bar>"
    and "0 < tol" and "1 \<le> m"
  shows "\<exists>pre' d1 d2 post'.
     regula_falsi_intervals f tol m (pre @ [(a, c), (c, b)] @ post) [] =
       Inr (pre' @ [(c, d1), (c, d2)] @ post')"
proof -
  from regula_falsi_intervals_total [OF assms(5), of f tol pre "[]"] obtain pre' where
    pre: "regula_falsi_intervals f tol m pre [] = Inr pre'" by auto
  from regula_falsi_for_right_zero [of f c a tol m, OF assms(1,2,4,5)] obtain d1 where
    e1: "regula_falsi_for f tol m (py_range m) a c None [] = Inr (Root_found c d1)" by blast
  from regula_falsi_for_left_zero [of f c b tol m, OF assms(1,3,4,5)] obtain d2 where
    e2: "regula_falsi_for f tol m (py_range m) c b None [] = Inr (Root_found c d2)" by blast
  let ?acc = "pre' @ [(c, d1)] @ [(c, d2)]"
  from regula_falsi_intervals_total [OF assms(5), of f tol post ?acc] obtain post' where
    post: "regula_falsi_intervals f tol m post ?acc = Inr (?acc @ post')" by auto
  have "regula_falsi_intervals f tol m (pre @ [(a, c), (c, b)] @ post) [] =
      regula_falsi_intervals f tol m ((a, c) # (c, b) # post) pre'"
    by (simp add: regula_falsi_intervals_append pre)
  also have "\<dots> = regula_falsi_intervals f tol m post ?acc"
    by (simp add: e1 e2)
  finally have "regula_falsi_intervals f tol m (pre @ [(a, c), (c, b)] @ post) [] =
       Inr (pre' @ [(c, d1), (c, d2)] @ post')"
    using post by simp
  then show ?thesis by blast
qed

text \<open>
  C9. When the value sampled at an interior point \<open>x[i]\<close> of the scanner is exactly
  zero and the values at the two neighbouring points are not, the scanner emits the
  two adjacent intervals \<open>(x[i-1], x[i])\<close> and \<open>(x[i], x[i+1])\<close>. For \<open>max_iter \<ge> 1\<close>
  bisection runs its loop on both and appends one entry for each, next to each other
  in its result; with \<open>lo < hi\<close> the two roots reported lie on either side of \<open>x[i]\<close>,
  so they are different. Regula falsi, for a positive tolerance and neighbouring values
  of magnitude at least \<open>1e-10\<close>, reports the root \<open>x[i]\<close> itself twice.
\<close>

theorem zero_sample_reported_twice:
  assumes "1 \<le> i" and "i + 1 < 100" and "1 \<le> max_iter"
    and "call_scalar function (scan_point lo hi i) = 0"
    and "call_scalar function (scan_point lo hi (i - 1)) \<noteq> 0"
    and "call_scalar function (scan_point lo hi (i + 1)) \<noteq> 0"
  shows "(\<exists>pre post. find_sign_change_intervals function lo hi 100 =
            Inr (pre @ [(scan_point lo hi (i - 1), scan_point lo hi i),
                   (scan_point lo hi i, scan_point lo hi (i + 1))] @ post))
    \<and> (\<exists>pre r1 d1 r2 d2 post.
          bisection_method function lo hi tol max_iter = Inr (pre @ [(r1, d1), (r2, d2)] @ post)
          \<and> is_entry_of (bisection_for (call_scalar function) tol max_iter (py_range max_iter)
                (scan_point lo hi (i - 1)) (scan_point lo hi i) None []) (r1, d1)
          \<and> is_entry_of (bisection_for (call_scalar function) tol max_iter (py_range max_iter)
                (scan_point lo hi i) (scan_point lo hi (i + 1)) None []) (r2, d2)
          \<and> (lo < hi \<longrightarrow> r1 < scan_point lo hi i \<and> scan_point lo hi i < r2))
    \<and> (0 < tol \<and> 1 / 10 ^ 10 \<le> \<bar>call_scalar function (scan_point lo hi (i - 1))\<bar>
          \<and> 1 / 10 ^ 10 \<le> \<bar>call_scalar function (scan_point lo hi (i + 1))\<bar> \<longrightarrow>
        (\<exists>pre d1 d2 post. regula_falsi_method function lo hi tol max_iter =
            Inr (pre @ [(scan_point lo hi i, d1), (scan_point lo hi i, d2)] @ post)))"
proof -
  let ?a = "scan_point lo hi (i - 1)" and ?c = "scan_point lo hi i"
    and ?b = "scan_point lo hi (i + 1)"
  from assms(4,5) obtain f where fn: "function = Expr_in_x f"
    by (cases "function") auto
  with assms(4) have zero: "f ?c = 0" by simp
  from scanner_zero_sample [of i 100 f lo hi, OF assms(1,2) zero] obtain pre post where
    ivs: "find_sign_change_intervals (Expr_in_x f) lo hi 100 =
      Inr (pre @ [(?a, ?c), (?c, ?b)] @ post)"
    by blast
  from bisection_two_entries [OF assms(3), of f tol pre ?a ?c ?c ?b post]
  obtain pre' K1 d1 K2 d2 post' where
    bis: "bisection_intervals f tol max_iter (pre @ [(?a, ?c), (?c, ?b)] @ post) [] =
       Inr (pre' @ [(midpoint f ?a ?c K1, d1), (midpoint f ?c ?b K2, d2)] @ post')"
    and e1: "is_entry_of (bisection_for f tol max_iter (py_range max_iter) ?a ?c None [])
       (midpoint f ?a ?c K1, d1)"
    and e2: "is_entry_of (bisection_for f tol max_iter (py_range max_iter) ?c ?b None [])
       (midpoint f ?c ?b K2, d2)"
    by blast
  have sep: "midpoint f ?a ?c K1 < ?c \<and> ?c < midpoint f ?c ?b K2" if "lo < hi"
  proof -
    from that assms(1,2) have "?a < ?c" "?c < ?b"
      by (auto intro!: linspace_strict_mono)
    then show ?thesis
      using midpoint_inside [of ?a ?c f K1] midpoint_inside [of ?c ?b f K2] by simp
  qed
  have sc: "call_scalar (Expr_in_x f) = f"
    by (rule ext) simp
  have B: "\<exists>pre r1 d1 r2 d2 post.
          bisection_method (Expr_in_x f) lo hi tol max_iter =
            Inr (pre @ [(r1, d1), (r2, d2)] @ post)
          \<and> is_entry_of (bisection_for f tol max_iter (py_range max_iter) ?a ?c None []) (r1, d1)
          \<and> is_entry_of (bisection_for f tol max_iter (py_range max_iter) ?c ?b None []) (r2, d2)
          \<and> (lo < hi \<longrightarrow> r1 < ?c \<and> ?c < r2)"
    using bis e1 e2 sep unfolding bisection_method_def ivs sc by fastforce
  have R: "\<exists>pre d1 d2 post. regula_falsi_method (Expr_in_x f) lo hi tol max_iter =
            Inr (pre @ [(?c, d1), (?c, d2)] @ post)"
    if "0 < tol" "1 / 10 ^ 10 \<le> \<bar>f ?a\<bar>" "1 / 10 ^ 10 \<le> \<bar>f ?b\<bar>"
    using regula_falsi_two_entries [of f ?c ?a ?b tol max_iter pre post,
        OF zero that(2,3,1) assms(3)]
    unfolding regula_falsi_method_def ivs sc by simp
  from ivs B R show ?thesis unfolding fn sc by blast
qed

theorem zero_sample_reported_twice_witness:
  "(1::nat) \<le> 1 \<and> (1::nat) + 1 < 100 \<and> (1::int) \<le> 3
    \<and> call_scalar (Expr_in_x (\<lambda>x. x)) (scan_point (-1) 98 1) = 0
    \<and> call_scalar (Expr_in_x (\<lambda>x. x)) (scan_point (-1) 98 (1 - 1)) \<noteq> 0
    \<and> call_scalar (Expr_in_x (\<lambda>x. x)) (scan_point (-1) 98 (1 + 1)) \<noteq> 0
    \<and> (\<exists>pre post. find_sign_change_intervals (Expr_in_x (\<lambda>x. x)) (-1) 98 100 =
            Inr (pre @ [(-1, 0), (0, 1)] @ post))
    \<and> (\<exists>pre r1 d1 r2 d2 post.
          bisection_method (Expr_in_x (\<lambda>x. x)) (-1) 98 (1 / 10) 3 =
            Inr (pre @ [(r1, d1), (r2, d2)] @ post)
          \<and> r1 < 0 \<and> 0 < r2)
    \<and> (\<exists>pre d1 d2 post. regula_falsi_method (Expr_in_x (\<lambda>x. x)) (-1) 98 (1 / 10) 3 =
            Inr (pre @ [(0, d1), (0, d2)] @ post))"
proof -
  have p0: "scan_point (-1) 98 (1 - 1) = -1" and p1: "scan_point (-1) 98 1 = 0"
    and p2: "scan_point (-1) 98 (1 + 1) = 1"
    by (simp_all add: nth_linspace)
  have h1: "(1::nat) \<le> 1" and h2: "(1::nat) + 1 < 100" and h3: "(1::int) \<le> 3"
    by simp_all
  have h4: "call_scalar (Expr_in_x (\<lambda>x. x)) (scan_point (-1) 98 1) = 0"
    unfolding p1 by simp
  have h5: "call_scalar (Expr_in_x (\<lambda>x. x)) (scan_point (-1) 98 (1 - 1)) \<noteq> 0"
    unfolding p0 by simp
  have h6: "call_scalar (Expr_in_x (\<lambda>x. x)) (scan_point (-1) 98 (1 + 1)) \<noteq> 0"
    unfolding p2 by simp
  from zero_sample_reported_twice [of 1 3 "Expr_in_x (\<lambda>x. x)" "-1" 98 "1 / 10",
      OF h1 h2 h3 h4 h5 h6]
  have "(\<exists>pre post. find_sign_change_intervals (Expr_in_x (\<lambda>x. x)) (-1) 98 100 =
            Inr (pre @ [(-1, 0), (0, 1)] @ post))"
    and "(\<exists>pre r1 d1 r2 d2 post.
          bisection_method (Expr_in_x (\<lambda>x. x)) (-1) 98 (1 / 10) 3 =
            Inr (pre @ [(r1, d1), (r2, d2)] @ post)
          \<and> r1 < 0 \<and> 0 < r2)"
    and "(\<exists>pre d1 d2 post. regula_falsi_method (Expr_in_x (\<lambda>x. x)) (-1) 98 (1 / 10) 3 =
            Inr (pre @ [(0, d1), (0, d2)] @ post))"
    unfolding p0 p1 p2 by (blast, fastforce, simp)
  with h1 h2 h3 h4 h5 h6 show ?thesis by blast
qed

section \<open>Properties of the incremental refinement\<close>

lemma incremental_while_exit:
  assumes "iter_count \<le> max_iter"
    and "incremental_while f tol max_iter iter_count x_l x_r acc rem = (x_l', x_r', n', d', rem')"
  shows "n' \<le> max_iter
    \<and> (\<bar>f x_l'\<bar> < tol \<or> \<bar>f x_r'\<bar> < tol \<or> x_r' - x_l' < tol \<or> n' = max_iter)
    \<and> (\<exists>more. d' = acc @ more \<and> n' = iter_count + int (length more)
          \<and> (\<forall>r\<in>set more. inc_Remarks r = '''' \<and> tol \<le> \<bar>f (inc_xl r)\<bar>
                \<and> tol \<le> \<bar>f (inc_xu r)\<bar> \<and> tol \<le> inc_xu r - inc_xl r
                \<and> inc_Iteration r < max_iter))"
  using assms
proof (induction f tol max_iter iter_count x_l x_r acc rem rule: incremental_while.induct)
  case (1 f tol m n xl xr acc rem)
  show ?case
  proof (cases "n < m")
    case False
    with "1.prems" show ?thesis
      by (subst (asm) incremental_while.simps) auto
  next
    case True
    note lt = this
    show ?thesis
    proof (cases "\<bar>f xl\<bar> < tol \<or> \<bar>f xr\<bar> < tol \<or> xr - xl < tol")
      case True
      with lt "1.prems" show ?thesis
        by (subst (asm) incremental_while.simps) (auto simp: Let_def split: if_splits)
    next
      case False
      let ?mid = "(xl + xr) / 2"
      let ?xr = "if f xl * f ?mid < 0 then ?mid else xr"
      let ?xl = "if f xl * f ?mid < 0 then xl else ?mid"
      let ?row = "\<lparr>inc_Iteration = n, inc_xl = xl, inc_x = xr - xl, inc_xu = xr,
                       inc_f_xl = f xl, inc_f_xu = f xr, inc_f_xl_f_xu = f xl * f xr,
                       inc_Remarks = ''''\<rparr>"
      from False lt have row: "inc_Remarks ?row = '''' \<and> tol \<le> \<bar>f (inc_xl ?row)\<bar>
          \<and> tol \<le> \<bar>f (inc_xu ?row)\<bar> \<and> tol \<le> inc_xu ?row - inc_xl ?row
          \<and> inc_Iteration ?row < m"
        by simp
      show ?thesis
      proof (cases "\<bar>f ?mid\<bar> < tol")
        case True
        with False lt "1.prems"(2) have "x_l' = ?xl" "x_r' = ?xr" "n' = n + 1" "d' = acc @ [?row]"
          by (subst (asm) incremental_while.simps, simp add: Let_def)+
        with True lt row show ?thesis
          by (intro conjI exI [of _ "[?row]"]) (auto split: if_splits)
      next
        case nmid: False
        with False lt "1.prems"(2) have
          rec: "incremental_while f tol m (n + 1) ?xl ?xr (acc @ [?row]) (Some '''') =
            (x_l', x_r', n', d', rem')"
          by (subst (asm) incremental_while.simps) (simp add: Let_def)
        from lt have le: "n + 1 \<le> m" by simp
        have "n' \<le> m
          \<and> (\<bar>f x_l'\<bar> < tol \<or> \<bar>f x_r'\<bar> < tol \<or> x_r' - x_l' < tol \<or> n' = m)
          \<and> (\<exists>more. d' = (acc @ [?row]) @ more \<and> n' = n + 1 + int (length more)
                \<and> (\<forall>r\<in>set more. inc_Remarks r = '''' \<and> tol \<le> \<bar>f (inc_xl r)\<bar>
                      \<and> tol \<le> \<bar>f (inc_xu r)\<bar> \<and> tol \<le> inc_xu r - inc_xl r
                      \<and> inc_Iteration r < m))"
          using False nmid lt le rec
          by (intro "1.IH" [OF lt refl refl refl refl _ _ _ refl refl refl refl refl]) auto
        then obtain more where more: "d' = (acc @ [?row]) @ more"
            "n' = n + 1 + int (length more)"
            "\<forall>r\<in>set more. inc_Remarks r = '''' \<and> tol \<le> \<bar>f (inc_xl r)\<bar>
                \<and> tol \<le> \<bar>f (inc_xu r)\<bar> \<and> tol \<le> inc_xu r - inc_xl r
                \<and> inc_Iteration r < m"
          and exit: "n' \<le> m"
            "\<bar>f x_l'\<bar> < tol \<or> \<bar>f x_r'\<bar> < tol \<or> x_r' - x_l' < tol \<or> n' = m"
          by blast
        from more row have "d' = acc @ (?row # more)"
          "n' = n + int (length (?row # more))"
          "\<forall>r\<in>set (?row # more). inc_Remarks r = '''' \<and> tol \<le> \<bar>f (inc_xl r)\<bar>
                \<and> tol \<le> \<bar>f (inc_xu r)\<bar> \<and> tol \<le> inc_xu r - inc_xl r
                \<and> inc_Iteration r < m"
          by simp_all
        with exit show ?thesis by blast
      qed
    qed
  qed
qed

text \<open>
  C7. For \<open>max_iter \<ge> 1\<close> the refinement of a sub-interval ends with a row whose
  remarks are one of "Converged at xl", "Converged at xu", "Interval too small" and
  "Final approximation", and are not empty. The loop stops when the value of \<open>f\<close> at
  one end of the interval is within the tolerance, or the width of the interval is below
  it, or \<open>max_iter\<close> steps have been used: the last row shows such a state, and its
  iteration number is the number of steps made, while every row before it was recorded
  in a state where none of this held (both function values and the width at least the
  tolerance, fewer than \<open>max_iter\<close> steps made), with empty remarks.
\<close>

theorem incremental_refine_final_row:
  assumes "1 \<le> max_iter"
  shows "case incremental_refine f tol max_iter x next_x of
      (root_value, iter_data) \<Rightarrow>
        iter_data \<noteq> []
        \<and> inc_Remarks (last iter_data) \<in>
            {''Converged at xl'', ''Converged at xu'', ''Interval too small'',
             ''Final approximation''}
        \<and> inc_Remarks (last iter_data) \<noteq> ''''
        \<and> (\<bar>f (inc_xl (last iter_data))\<bar> < tol \<or> \<bar>f (inc_xu (last iter_data))\<bar> < tol
            \<or> inc_xu (last iter_data) - inc_xl (last iter_data) < tol
            \<or> inc_Iteration (last iter_data) = max_iter)
        \<and> inc_Iteration (last iter_data) = int (length (butlast iter_data))
        \<and> (\<forall>r\<in>set (butlast iter_data).
              inc_Remarks r = '''' \<and> tol \<le> \<bar>f (inc_xl r)\<bar> \<and> tol \<le> \<bar>f (inc_xu r)\<bar>
              \<and> tol \<le> inc_xu r - inc_xl r \<and> inc_Iteration r < max_iter)"
proof -
  obtain x_l x_r n d rem where
    w: "incremental_while f tol max_iter 0 x next_x [] None = (x_l, x_r, n, d, rem)"
    by (metis prod_cases5)
  from assms have "0 \<le> max_iter" by simp
  from incremental_while_exit [OF this w]
  have "\<bar>f x_l\<bar> < tol \<or> \<bar>f x_r\<bar> < tol \<or> x_r - x_l < tol \<or> n = max_iter"
    and "n = int (length d)"
    and "\<forall>r\<in>set d. inc_Remarks r = '''' \<and> tol \<le> \<bar>f (inc_xl r)\<bar> \<and> tol \<le> \<bar>f (inc_xu r)\<bar>
              \<and> tol \<le> inc_xu r - inc_xl r \<and> inc_Iteration r < max_iter"
    by auto
  then show ?thesis
    by (simp add: incremental_refine_def w Let_def)
qed

text \<open>
  The remarks of the last row are recomputed after the loop from the function values
  alone, so "Interval too small", which the loop assigns before it breaks, is never the
  one recorded.
\<close>

lemma incremental_refine_remarks:
  "inc_Remarks (last (snd (incremental_refine f tol max_iter x next_x))) \<in>
     {''Converged at xl'', ''Converged at xu'', ''Final approximation''}"
  by (simp add: incremental_refine_def Let_def split: prod.splits)

theorem incremental_refine_final_row_witness:
  "(1::int) \<le> 2 \<and> (1::int) \<le> 5
   \<and> (case incremental_refine (\<lambda>x. x - 1) (1 / 10) 2 0 3 of
      (root_value, iter_data) \<Rightarrow>
        iter_data \<noteq> []
        \<and> inc_Remarks (last iter_data) \<in>
            {''Converged at xl'', ''Converged at xu'', ''Interval too small'',
             ''Final approximation''}
        \<and> inc_Remarks (last iter_data) \<noteq> ''''
        \<and> (\<bar>(\<lambda>x. x - 1) (inc_xl (last iter_data))\<bar> < 1 / 10
            \<or> \<bar>(\<lambda>x. x - 1) (inc_xu (last iter_data))\<bar> < 1 / 10
            \<or> inc_xu (last iter_data) - inc_xl (last iter_data) < 1 / 10
            \<or> inc_Iteration (last iter_data) = 2)
        \<and> inc_Iteration (last iter_data) = int (length (butlast iter_data))
        \<and> (\<forall>r\<in>set (butlast iter_data).
              inc_Remarks r = '''' \<and> 1 / 10 \<le> \<bar>(\<lambda>x. x - 1) (inc_xl r)\<bar>
              \<and> 1 / 10 \<le> \<bar>(\<lambda>x. x - 1) (inc_xu r)\<bar>
              \<and> 1 / 10 \<le> inc_xu r - inc_xl r \<and> inc_Iteration r < 2))
   \<and> incremental_refine (\<lambda>x. x - 1) (1 / 10) 2 0 3 =
     (9 / 8,
      [\<lparr>inc_Iteration = 0, inc_xl = 0, inc_x = 3, inc_xu = 3, inc_f_xl = - 1, inc_f_xu = 2,
        inc_f_xl_f_xu = - 2, inc_Remarks = ''''\<rparr>,
       \<lparr>inc_Iteration = 1, inc_xl = 0, inc_x = 3 / 2, inc_xu = 3 / 2, inc_f_xl = - 1,
        inc_f_xu = 1 / 2, inc_f_xl_f_xu = - 1 / 2, inc_Remarks = ''''\<rparr>,
       \<lparr>inc_Iteration = 2, inc_xl = 3 / 4, inc_x = 3 / 4, inc_xu = 3 / 2, inc_f_xl = - 1 / 4,
        inc_f_xu = 1 / 2, inc_f_xl_f_xu = - 1 / 8, inc_Remarks = ''Final approximation''\<rparr>])
   \<and> (case incremental_refine (\<lambda>x. x - 1) (3 / 10) 5 0 3 of
      (root_value, iter_data) \<Rightarrow>
        iter_data \<noteq> []
        \<and> inc_Remarks (last iter_data) \<in>
            {''Converged at xl'', ''Converged at xu'', ''Interval too small'',
             ''Final approximation''}
        \<and> inc_Remarks (last iter_data) \<noteq> ''''
        \<and> (\<bar>(\<lambda>x. x - 1) (inc_xl (last iter_data))\<bar> < 3 / 10
            \<or> \<bar>(\<lambda>x. x - 1) (inc_xu (last iter_data))\<bar> < 3 / 10
            \<or> inc_xu (last iter_data) - inc_xl (last iter_data) < 3 / 10
            \<or> inc_Iteration (last iter_data) = 5)
        \<and> inc_Iteration (last iter_data) = int (length (butlast iter_data))
        \<and> (\<forall>r\<in>set (butlast iter_data).
              inc_Remarks r = '''' \<and> 3 / 10 \<le> \<bar>(\<lambda>x. x - 1) (inc_xl r)\<bar>
              \<and> 3 / 10 \<le> \<bar>(\<lambda>x. x - 1) (inc_xu r)\<bar>
              \<and> 3 / 10 \<le> inc_xu r - inc_xl r \<and> inc_Iteration r < 5))
   \<and> incremental_refine (\<lambda>x. x - 1) (3 / 10) 5 0 3 =
     (3 / 4,
      [\<lparr>inc_Iteration = 0, inc_xl = 0, inc_x = 3, inc_xu = 3, inc_f_xl = - 1, inc_f_xu = 2,
        inc_f_xl_f_xu = - 2, inc_Remarks = ''''\<rparr>,
       \<lparr>inc_Iteration = 1, inc_xl = 0, inc_x = 3 / 2, inc_xu = 3 / 2, inc_f_xl = - 1,
        inc_f_xu = 1 / 2, inc_f_xl_f_xu = - 1 / 2, inc_Remarks = ''''\<rparr>,
       \<lparr>inc_Iteration = 2, inc_xl = 3 / 4, inc_x = 3 / 4, inc_xu = 3 / 2, inc_f_xl = - 1 / 4,
        inc_f_xu = 1 / 2, inc_f_xl_f_xu = - 1 / 8, inc_Remarks = ''Converged at xl''\<rparr>])"
proof -
  have h: "(1::int) \<le> 2" and h': "(1::int) \<le> 5" by simp_all
  have ev: "incremental_refine (\<lambda>x. x - 1) (1 / 10) 2 0 3 =
     (9 / 8,
      [\<lparr>inc_Iteration = 0, inc_xl = 0, inc_x = 3, inc_xu = 3, inc_f_xl = - 1, inc_f_xu = 2,
        inc_f_xl_f_xu = - 2, inc_Remarks = ''''\<rparr>,
       \<lparr>inc_Iteration = 1, inc_xl = 0, inc_x = 3 / 2, inc_xu = 3 / 2, inc_f_xl = - 1,
        inc_f_xu = 1 / 2, inc_f_xl_f_xu = - 1 / 2, inc_Remarks = ''''\<rparr>,
       \<lparr>inc_Iteration = 2, inc_xl = 3 / 4, inc_x = 3 / 4, inc_xu = 3 / 2, inc_f_xl = - 1 / 4,
        inc_f_xu = 1 / 2, inc_f_xl_f_xu = - 1 / 8, inc_Remarks = ''Final approximation''\<rparr>])"
    by (simp add: incremental_refine_def incremental_while.simps Let_def)
  have ev': "incremental_refine (\<lambda>x. x - 1) (3 / 10) 5 0 3 =
     (3 / 4,
      [\<lparr>inc_Iteration = 0, inc_xl = 0, inc_x = 3, inc_xu = 3, inc_f_xl = - 1, inc_f_xu = 2,
        inc_f_xl_f_xu = - 2, inc_Remarks = ''''\<rparr>,
       \<lparr>inc_Iteration = 1, inc_xl = 0, inc_x = 3 / 2, inc_xu = 3 / 2, inc_f_xl = - 1,
        inc_f_xu = 1 / 2, inc_f_xl_f_xu = - 1 / 2, inc_Remarks = ''''\<rparr>,
       \<lparr>inc_Iteration = 2, inc_xl = 3 / 4, inc_x = 3 / 4, inc_xu = 3 / 2, inc_f_xl = - 1 / 4,
        inc_f_xu = 1 / 2, inc_f_xl_f_xu = - 1 / 8, inc_Remarks = ''Converged at xl''\<rparr>])"
    by (simp add: incremental_refine_def incremental_while.simps Let_def)
  from h h' incremental_refine_final_row [OF h, of "\<lambda>x. x - 1" "1 / 10" 0 3] ev
    incremental_refine_final_row [OF h', of "\<lambda>x. x - 1" "3 / 10" 0 3] ev'
  show ?thesis by (intro conjI)
qed

section \<open>Properties of the formatting\<close>

lemma round_half_even_near: "\<bar>real_of_int (round_half_even y) - y\<bar> \<le> 1 / 2"
proof -
  have "real_of_int \<lfloor>y\<rfloor> \<le> y" and "y < real_of_int \<lfloor>y\<rfloor> + 1"
    by linarith+
  then show ?thesis
    by (auto simp: round_half_even_def Let_def)
qed

lemma py_round4_near: "\<bar>py_round4 x - x\<bar> \<le> 1 / (2 * 10 ^ 4)"
proof -
  have "\<bar>py_round4 x - x\<bar> = \<bar>real_of_int (round_half_even (x * 10 ^ 4)) - x * 10 ^ 4\<bar> / 10 ^ 4"
    by (simp add: py_round4_def field_simps abs_divide)
  also have "\<dots> \<le> (1 / 2) / 10 ^ 4"
    by (intro divide_right_mono round_half_even_near) simp
  finally show ?thesis by simp
qed

text \<open>
  C8. With full precision requested, \<open>format_number\<close> returns a number unchanged,
  whatever its magnitude. Otherwise a number of magnitude below \<open>1e-4\<close> is rendered in
  scientific notation (the text of the format \<open>.4e\<close>), and any other float is rounded
  to 4 decimal places: the result is a multiple of \<open>10^-4\<close> within half of \<open>10^-4\<close> of the
  value; an integer that is not zero is its own rounding.
\<close>

theorem format_number_spec:
  "format_number format_4e True (Float_value x) = Float_value x
   \<and> format_number format_4e True (Int_value n) = Int_value n
   \<and> (\<bar>x\<bar> < 1 / 10 ^ 4 \<longrightarrow>
        format_number format_4e False (Float_value x) = Str_value (format_4e x))
   \<and> (\<bar>real_of_int n\<bar> < 1 / 10 ^ 4 \<longrightarrow>
        format_number format_4e False (Int_value n) = Str_value (format_4e (real_of_int n)))
   \<and> (\<not> \<bar>x\<bar> < 1 / 10 ^ 4 \<longrightarrow>
        (\<exists>k::int. format_number format_4e False (Float_value x) = Float_value (real_of_int k / 10 ^ 4)
           \<and> \<bar>real_of_int k / 10 ^ 4 - x\<bar> \<le> 1 / (2 * 10 ^ 4)))
   \<and> (\<not> \<bar>real_of_int n\<bar> < 1 / 10 ^ 4 \<longrightarrow>
        format_number format_4e False (Int_value n) = Int_value n)"
proof -
  have "\<exists>k::int. Float_value (py_round4 x) = Float_value (real_of_int k / 10 ^ 4)
           \<and> \<bar>real_of_int k / 10 ^ 4 - x\<bar> \<le> 1 / (2 * 10 ^ 4)"
    using py_round4_near [of x]
    by (intro exI [of _ "round_half_even (x * 10 ^ 4)"]) (simp add: py_round4_def)
  then show ?thesis
    by (simp add: format_number_def)
qed

theorem format_number_spec_witness:
  "format_number (\<lambda>v. ''sci'') True (Float_value (1 / 100000)) = Float_value (1 / 100000)
   \<and> format_number (\<lambda>v. ''sci'') False (Float_value (1 / 100000)) = Str_value ''sci''
   \<and> format_number (\<lambda>v. ''sci'') False (Int_value 0) = Str_value ''sci''
   \<and> format_number (\<lambda>v. ''sci'') False (Int_value 7) = Int_value 7
   \<and> (\<exists>k::int. format_number (\<lambda>v. ''sci'') False (Float_value (314159 / 100000)) =
          Float_value (real_of_int k / 10 ^ 4)
        \<and> \<bar>real_of_int k / 10 ^ 4 - 314159 / 100000\<bar> \<le> 1 / (2 * 10 ^ 4))"
  using format_number_spec [of "\<lambda>v. ''sci''" "1 / 100000" 0]
    format_number_spec [of "\<lambda>v. ''sci''" "314159 / 100000" 7]
  by simp

lemma round_example: "py_round4 (314159 / 100000) = 31416 / 10000"
  by (simp add: py_round4_def round_half_even_def Let_def)

section \<open>Properties of the compilation\<close>

text \<open>
  C2. Compilation is not atomic. \<open>self.function\<close> is assigned before the derivative
  is computed, and the handler restores nothing: when the differentiation raises, the
  call fails with the new function installed and no derivative.
\<close>

theorem parse_function_not_atomic:
  "parse_function Inr Inr Inr (Inl \<circ> Raised) ''f(x) = x''
       \<lparr>self_function = None, self_derivative = None\<rparr>
     = (False, \<lparr>self_function = Some '' x'', self_derivative = None\<rparr>)"
  by (simp add: parse_function_def)

text \<open>
  C2, as the code has it. A failure before the function is built (the prefix is
  missing, or the normalisation, the evaluation or the compilation of the function
  raises) returns \<open>False\<close> and leaves the state as it was. Once the function \<open>fn\<close> is
  built it is installed: when the differentiation or the compilation of the derivative
  raises, the call returns \<open>False\<close> and the state is the old one with \<open>fn\<close> as its
  function, beside the old derivative; otherwise the call returns \<open>True\<close> with \<open>fn\<close> and
  the derivative compiled from the same expression. So a call that returns \<open>False\<close>
  never changes the derivative, and a call that returns \<open>True\<close> has installed both.
\<close>

theorem parse_function_outcome:
  "(take 6 input_str \<noteq> ''f(x) ='' \<or> isl (rewrite (drop 6 input_str))
      \<or> (\<exists>s. rewrite (drop 6 input_str) = Inr s
            \<and> (isl (py_eval s) \<or> (\<exists>e. py_eval s = Inr e \<and> isl (lambdify e)))) \<longrightarrow>
      parse_function rewrite py_eval lambdify diff input_str self = (False, self))
   \<and> (take 6 input_str = ''f(x) ='' \<and> rewrite (drop 6 input_str) = Inr function_str
        \<and> py_eval function_str = Inr f_expr \<and> lambdify f_expr = Inr fn \<longrightarrow>
      (isl (diff f_expr) \<or> (\<exists>d. diff f_expr = Inr d \<and> isl (lambdify d)) \<longrightarrow>
         parse_function rewrite py_eval lambdify diff input_str self =
           (False, self\<lparr>self_function := Some fn\<rparr>))
      \<and> (\<forall>d d_fn. diff f_expr = Inr d \<and> lambdify d = Inr d_fn \<longrightarrow>
           parse_function rewrite py_eval lambdify diff input_str self =
             (True, self\<lparr>self_function := Some fn, self_derivative := Some d_fn\<rparr>)))
   \<and> (parse_function rewrite py_eval lambdify diff input_str self = (ok, self') \<longrightarrow>
      (ok \<longrightarrow>
        (\<exists>s e g d d_fn.
            rewrite (drop 6 input_str) = Inr s \<and> py_eval s = Inr e
          \<and> lambdify e = Inr g \<and> diff e = Inr d \<and> lambdify d = Inr d_fn
          \<and> self' = self\<lparr>self_function := Some g, self_derivative := Some d_fn\<rparr>))
      \<and> (\<not> ok \<longrightarrow>
        self_derivative self' = self_derivative self
        \<and> (self' = self
           \<or> (\<exists>s e g.
                rewrite (drop 6 input_str) = Inr s \<and> py_eval s = Inr e
              \<and> lambdify e = Inr g \<and> self' = self\<lparr>self_function := Some g\<rparr>
              \<and> (isl (diff e) \<or> (\<exists>d. diff e = Inr d \<and> isl (lambdify d)))))))"
proof -
  let ?parse = "parse_function rewrite py_eval lambdify diff input_str self"
  have c1: "take 6 input_str \<noteq> ''f(x) ='' \<or> isl (rewrite (drop 6 input_str))
      \<or> (\<exists>s. rewrite (drop 6 input_str) = Inr s
            \<and> (isl (py_eval s) \<or> (\<exists>e. py_eval s = Inr e \<and> isl (lambdify e)))) \<longrightarrow>
      ?parse = (False, self)"
    by (auto simp: parse_function_def isl_def)
  have c2: "take 6 input_str = ''f(x) ='' \<and> rewrite (drop 6 input_str) = Inr function_str
        \<and> py_eval function_str = Inr f_expr \<and> lambdify f_expr = Inr fn \<longrightarrow>
      (isl (diff f_expr) \<or> (\<exists>d. diff f_expr = Inr d \<and> isl (lambdify d)) \<longrightarrow>
         ?parse = (False, self\<lparr>self_function := Some fn\<rparr>))
      \<and> (\<forall>d d_fn. diff f_expr = Inr d \<and> lambdify d = Inr d_fn \<longrightarrow>
           ?parse = (True, self\<lparr>self_function := Some fn, self_derivative := Some d_fn\<rparr>))"
    by (auto simp: parse_function_def isl_def)
  have c3: "?parse = (ok, self') \<longrightarrow>
      (ok \<longrightarrow>
        (\<exists>s e g d d_fn.
            rewrite (drop 6 input_str) = Inr s \<and> py_eval s = Inr e
          \<and> lambdify e = Inr g \<and> diff e = Inr d \<and> lambdify d = Inr d_fn
          \<and> self' = self\<lparr>self_function := Some g, self_derivative := Some d_fn\<rparr>))
      \<and> (\<not> ok \<longrightarrow>
        self_derivative self' = self_derivative self
        \<and> (self' = self
           \<or> (\<exists>s e g.
                rewrite (drop 6 input_str) = Inr s \<and> py_eval s = Inr e
              \<and> lambdify e = Inr g \<and> self' = self\<lparr>self_function := Some g\<rparr>
              \<and> (isl (diff e) \<or> (\<exists>d. diff e = Inr d \<and> isl (lambdify d))))))"
    by (auto simp: parse_function_def Let_def split: if_splits sum.splits)
  from c1 c2 c3 show ?thesis by (intro conjI)
qed

theorem parse_function_outcome_witness:
  "parse_function Inr Inr Inr Inr ''g(x) = x''
        \<lparr>self_function = Some ''old'', self_derivative = Some ''old''\<rparr>
     = (False, \<lparr>self_function = Some ''old'', self_derivative = Some ''old''\<rparr>)
   \<and> parse_function Inr Inr Inr (Inl \<circ> Raised) ''f(x) = x''
        \<lparr>self_function = Some ''old'', self_derivative = Some ''old''\<rparr>
     = (False, \<lparr>self_function = Some '' x'', self_derivative = Some ''old''\<rparr>)
   \<and> parse_function Inr Inr Inr Inr ''f(x) = x''
        \<lparr>self_function = None, self_derivative = None\<rparr>
     = (True, \<lparr>self_function = Some '' x'', self_derivative = Some '' x''\<rparr>)"
proof -
  have 1: "parse_function Inr Inr Inr Inr ''g(x) = x''
        \<lparr>self_function = Some ''old'', self_derivative = Some ''old''\<rparr>
     = (False, \<lparr>self_function = Some ''old'', self_derivative = Some ''old''\<rparr>)"
    using parse_function_outcome [of "''g(x) = x''" Inr Inr Inr Inr
      "\<lparr>self_function = Some ''old'', self_derivative = Some ''old''\<rparr>", THEN conjunct1]
    by simp
  have 2: "parse_function Inr Inr Inr (Inl \<circ> Raised) ''f(x) = x''
        \<lparr>self_function = Some ''old'', self_derivative = Some ''old''\<rparr>
     = (False, \<lparr>self_function = Some '' x'', self_derivative = Some ''old''\<rparr>)"
    using parse_function_outcome [of "''f(x) = x''" Inr Inr Inr "Inl \<circ> Raised"
      "\<lparr>self_function = Some ''old'', self_derivative = Some ''old''\<rparr>"
      "'' x''" "'' x''" "'' x''", THEN conjunct2, THEN conjunct1]
    by simp
  have 3: "parse_function Inr Inr Inr Inr ''f(x) = x''
        \<lparr>self_function = None, self_derivative = None\<rparr>
     = (True, \<lparr>self_function = Some '' x'', self_derivative = Some '' x''\<rparr>)"
    using parse_function_outcome [of "''f(x) = x''" Inr Inr Inr Inr
      "\<lparr>self_function = None, self_derivative = None\<rparr>"
      "'' x''" "'' x''" "'' x''", THEN conjunct2, THEN conjunct1]
    by simp
  from 1 2 3 show ?thesis by (intro conjI)
qed

end
